theory Spec2Isabelle
  imports Main "HOL-Library.Char_ord" "HOL-Library.List_Lexorder" "HOL-Library.Sublist"
begin

section \<open>Python values and text\<close>

text \<open>
  The program is \<^verbatim>\<open>app.py\<close>: three loader functions that flatten JSON files into one
  text, and one HTTP handler. A Python \<^verbatim>\<open>str\<close> is a \<open>string\<close>, one \<open>char\<close> per code
  point; the model covers text of code points below 256. Strings compare by code point
  (\<open>Char_ord\<close>, \<open>List_Lexorder\<close>), as Python's do.

  A value returned by \<^verbatim>\<open>json.load\<close> is a \<open>json\<close>. A \<^verbatim>\<open>dict\<close> is the list of its items in
  insertion order; the keys of a dict are pairwise distinct in Python, and \<open>map_of\<close> reads
  a key. A \<^verbatim>\<open>float\<close> is carried by the text \<^verbatim>\<open>float.__repr__\<close> prints for it.
\<close>

datatype pyfloat = FloatRepr string | FNaN | FInf | FNegInf

datatype json =
    JNull
  | JBool bool
  | JInt int
  | JFloat pyfloat
  | JStr string
  | JList "json list"
  | JDict "(string \<times> json) list"

text \<open>\<^verbatim>\<open>sep.join(parts)\<close>.\<close>

fun str_join :: "string \<Rightarrow> string list \<Rightarrow> string" where
  "str_join sep [] = []"
| "str_join sep [x] = x"
| "str_join sep (x # y # ys) = x @ sep @ str_join sep (y # ys)"

text \<open>\<^verbatim>\<open>sub in s\<close> on two strings: \<open>sub\<close> occurs in \<open>s\<close> as a contiguous run.\<close>

fun str_contains :: "string \<Rightarrow> string \<Rightarrow> bool" where
  "str_contains sub [] = (sub = [])"
| "str_contains sub (c # cs) = (prefix sub (c # cs) \<or> str_contains sub cs)"

text \<open>Decimal and hexadecimal digits; \<^verbatim>\<open>str(n)\<close> of an \<^verbatim>\<open>int\<close>.\<close>

definition digit_char :: "nat \<Rightarrow> char" where
  "digit_char d = char_of (48 + d)"

fun str_nat :: "nat \<Rightarrow> string" where
  "str_nat n = (if n < 10 then [digit_char n] else str_nat (n div 10) @ [digit_char (n mod 10)])"

declare str_nat.simps [simp del]

definition str_int :: "int \<Rightarrow> string" where
  "str_int i = (if i < 0 then CHR ''-'' # str_nat (nat (- i)) else str_nat (nat i))"

definition hex_digit :: "nat \<Rightarrow> char" where
  "hex_digit d = (if d < 10 then char_of (48 + d) else char_of (87 + d))"

definition hex2 :: "char \<Rightarrow> string" where
  "hex2 c = [hex_digit (of_char c div 16), hex_digit (of_char c mod 16)]"

text \<open>
  \<^verbatim>\<open>str.upper()\<close> maps each character to its upper-case form. Below code point 256
  that is: the ASCII letters \<^verbatim>\<open>a\<close> to \<^verbatim>\<open>z\<close> and the Latin-1 letters \<^verbatim>\<open>0xE0\<close> to
  \<^verbatim>\<open>0xFE\<close> (the division sign \<^verbatim>\<open>0xF7\<close> apart) move down by 32, the sharp s
  \<^verbatim>\<open>0xDF\<close> becomes the two letters \<^verbatim>\<open>SS\<close>, and every other character stays, with two
  exceptions: the micro sign \<^verbatim>\<open>0xB5\<close> and the y with diaeresis \<^verbatim>\<open>0xFF\<close>, whose
  upper-case forms are the code points \<^verbatim>\<open>0x39C\<close> and \<^verbatim>\<open>0x178\<close>. A \<open>char\<close> cannot
  hold those two results: \<open>upper_char\<close> leaves the two characters as they are, and
  \<open>upper_in_range\<close> says of a text that it has neither of them, so that \<open>upper\<close> is
  what Python computes for it.
\<close>

definition upper_char :: "char \<Rightarrow> string" where
  "upper_char c =
     (let n = (of_char c :: nat)
      in if 97 \<le> n \<and> n \<le> 122 then [char_of (n - 32)]
         else if n = 223 then ''SS''
         else if 224 \<le> n \<and> n \<le> 254 \<and> n \<noteq> 247 then [char_of (n - 32)]
         else [c])"

definition upper :: "string \<Rightarrow> string" where
  "upper s = concat (map upper_char s)"

definition upper_in_range :: "string \<Rightarrow> bool" where
  "upper_in_range s = (CHR 0xB5 \<notin> set s \<and> CHR 0xFF \<notin> set s)"

text \<open>
  \<^verbatim>\<open>repr(s)\<close> of a \<^verbatim>\<open>str\<close>: double quotes when the text has a single quote and no
  double quote, single quotes otherwise; the quote and the backslash are escaped, tab,
  newline and carriage return have their letter, and a character that is not printable
  is written \<^verbatim>\<open>\xhh\<close>.
\<close>

definition printable :: "char \<Rightarrow> bool" where
  "printable c =
     (let n = (of_char c :: nat) in 32 \<le> n \<and> n < 127 \<or> 161 \<le> n \<and> n \<noteq> 173)"

definition repr_char :: "char \<Rightarrow> char \<Rightarrow> string" where
  "repr_char q c =
     (if c = q \<or> c = CHR 0x5C then [CHR 0x5C, c]
      else if c = CHR 0x09 then [CHR 0x5C, CHR ''t'']
      else if c = CHR 0x0A then [CHR 0x5C, CHR ''n'']
      else if c = CHR 0x0D then [CHR 0x5C, CHR ''r'']
      else if printable c then [c]
      else [CHR 0x5C, CHR ''x''] @ hex2 c)"

definition repr_str :: "string \<Rightarrow> string" where
  "repr_str s =
     (let q = (if CHR 0x27 \<in> set s \<and> CHR 0x22 \<notin> set s then CHR 0x22 else CHR 0x27)
      in q # concat (map (repr_char q) s) @ [q])"

definition float_str :: "pyfloat \<Rightarrow> string" where
  "float_str f =
     (case f of FloatRepr s \<Rightarrow> s | FNaN \<Rightarrow> ''nan'' | FInf \<Rightarrow> ''inf'' | FNegInf \<Rightarrow> ''-inf'')"

text \<open>\<^verbatim>\<open>repr(v)\<close>, which \<^verbatim>\<open>str\<close> of a list or a dict applies to the members.\<close>

fun py_repr :: "json \<Rightarrow> string" where
  "py_repr JNull = ''None''"
| "py_repr (JBool b) = (if b then ''True'' else ''False'')"
| "py_repr (JInt i) = str_int i"
| "py_repr (JFloat f) = float_str f"
| "py_repr (JStr s) = repr_str s"
| "py_repr (JList xs) = ''['' @ str_join '', '' (map py_repr xs) @ '']''"
| "py_repr (JDict kvs) =
     ''{'' @ str_join '', '' (map (\<lambda>kv. repr_str (fst kv) @ '': '' @ py_repr (snd kv)) kvs) @ ''}''"

text \<open>\<^verbatim>\<open>str(v)\<close>, the conversion an f-string applies to \<^verbatim>\<open>{v}\<close>.\<close>

definition py_str :: "json \<Rightarrow> string" where
  "py_str v = (case v of JStr s \<Rightarrow> s | _ \<Rightarrow> py_repr v)"

section \<open>\<^verbatim>\<open>json.dumps(value, indent=2)\<close>\<close>

text \<open>
  The encoder of the standard library with its defaults and \<^verbatim>\<open>indent=2\<close>: items are
  separated by a comma and a new line, a key from its value by a colon and a space, an
  empty list or dict is written closed, and (\<^verbatim>\<open>ensure_ascii\<close>) every character outside
  the printable ASCII range is escaped.
\<close>

definition escape_char :: "char \<Rightarrow> string" where
  "escape_char c =
     (if c = CHR 0x22 then [CHR 0x5C, CHR 0x22]
      else if c = CHR 0x5C then [CHR 0x5C, CHR 0x5C]
      else if c = CHR 0x0A then [CHR 0x5C, CHR ''n'']
      else if c = CHR 0x0D then [CHR 0x5C, CHR ''r'']
      else if c = CHR 0x09 then [CHR 0x5C, CHR ''t'']
      else if c = CHR 0x08 then [CHR 0x5C, CHR ''b'']
      else if c = CHR 0x0C then [CHR 0x5C, CHR ''f'']
      else if CHR 0x20 \<le> c \<and> c \<le> CHR 0x7E then [c]
      else [CHR 0x5C, CHR ''u'', CHR ''0'', CHR ''0''] @ hex2 c)"

definition encode_str :: "string \<Rightarrow> string" where
  "encode_str s = CHR 0x22 # concat (map escape_char s) @ [CHR 0x22]"

definition float_json :: "pyfloat \<Rightarrow> string" where
  "float_json f =
     (case f of FloatRepr s \<Rightarrow> s | FNaN \<Rightarrow> ''NaN'' | FInf \<Rightarrow> ''Infinity''
      | FNegInf \<Rightarrow> ''-Infinity'')"

definition newline_indent :: "nat \<Rightarrow> string" where
  "newline_indent level = CHR 0x0A # replicate (2 * level) CHR '' ''"

fun dumps_level :: "nat \<Rightarrow> json \<Rightarrow> string" where
  "dumps_level l JNull = ''null''"
| "dumps_level l (JBool b) = (if b then ''true'' else ''false'')"
| "dumps_level l (JInt i) = str_int i"
| "dumps_level l (JFloat f) = float_json f"
| "dumps_level l (JStr s) = encode_str s"
| "dumps_level l (JList xs) =
     (if xs = [] then ''[]''
      else ''['' @ newline_indent (Suc l)
        @ str_join ('','' @ newline_indent (Suc l)) (map (dumps_level (Suc l)) xs)
        @ newline_indent l @ '']'')"
| "dumps_level l (JDict kvs) =
     (if kvs = [] then ''{}''
      else ''{'' @ newline_indent (Suc l)
        @ str_join ('','' @ newline_indent (Suc l))
            (map (\<lambda>kv. encode_str (fst kv) @ '': '' @ dumps_level (Suc l) (snd kv)) kvs)
        @ newline_indent l @ ''}'')"

definition json_dumps :: "json \<Rightarrow> string" where
  "json_dumps v = dumps_level 0 v"

section \<open>Exceptions, dynamic operations, the file system\<close>

text \<open>
  The exceptions the loaders catch. \<open>LoadError\<close> is what \<^verbatim>\<open>open\<close> or \<^verbatim>\<open>json.load\<close>
  raised, with its message; the others come from an operation on a value of the wrong
  type.
\<close>

datatype exn = LoadError string | TypeError | KeyError | AttributeError

text \<open>\<^verbatim>\<open>for entry in data\<close>: the members a value yields, or \<^verbatim>\<open>TypeError\<close>.\<close>

definition py_iter :: "json \<Rightarrow> exn + json list" where
  "py_iter data =
     (case data of
        JList xs \<Rightarrow> Inr xs
      | JDict kvs \<Rightarrow> Inr (map (\<lambda>kv. JStr (fst kv)) kvs)
      | JStr s \<Rightarrow> Inr (map (\<lambda>c. JStr [c]) s)
      | _ \<Rightarrow> Inl TypeError)"

text \<open>\<^verbatim>\<open>key in data\<close> for a string \<open>key\<close>.\<close>

definition py_in :: "string \<Rightarrow> json \<Rightarrow> exn + bool" where
  "py_in key data =
     (case data of
        JDict kvs \<Rightarrow> Inr (key \<in> set (map fst kvs))
      | JList xs \<Rightarrow> Inr (JStr key \<in> set xs)
      | JStr s \<Rightarrow> Inr (str_contains key s)
      | _ \<Rightarrow> Inl TypeError)"

text \<open>\<^verbatim>\<open>data[key]\<close> for a string \<open>key\<close>.\<close>

definition py_getitem :: "json \<Rightarrow> string \<Rightarrow> exn + json" where
  "py_getitem data key =
     (case data of
        JDict kvs \<Rightarrow> (case map_of kvs key of None \<Rightarrow> Inl KeyError | Some v \<Rightarrow> Inr v)
      | _ \<Rightarrow> Inl TypeError)"

text \<open>\<^verbatim>\<open>value.items()\<close>.\<close>

definition py_items :: "json \<Rightarrow> exn + (string \<times> json) list" where
  "py_items v = (case v of JDict kvs \<Rightarrow> Inr kvs | _ \<Rightarrow> Inl AttributeError)"

text \<open>\<^verbatim>\<open>entry.get(key, default)\<close> on a dict.\<close>

definition dict_get :: "(string \<times> json) list \<Rightarrow> string \<Rightarrow> json \<Rightarrow> json" where
  "dict_get kvs key dflt = (case map_of kvs key of None \<Rightarrow> dflt | Some v \<Rightarrow> v)"

text \<open>
  \<^verbatim>\<open>os.path.join\<close> and \<^verbatim>\<open>os.path.basename\<close> (POSIX). \<^verbatim>\<open>glob.glob\<close> of
  \<^verbatim>\<open>os.path.join(directory, "*.json")\<close> over the names \<^verbatim>\<open>names\<close> the directory holds,
  in the order the system lists them: a name matches \<^verbatim>\<open>*.json\<close> when it ends in
  \<^verbatim>\<open>.json\<close> and does not begin with a dot. The glob reads the directory part of its
  pattern as a pattern too when it has one of the characters \<^verbatim>\<open>*\<close>, \<^verbatim>\<open>?\<close>, \<^verbatim>\<open>[\<close>
  (\<^verbatim>\<open>glob.has_magic\<close>), and then lists the directories that match it; \<open>glob_json\<close> is
  the glob for a directory whose path has none of the three.
\<close>

definition has_magic :: "string \<Rightarrow> bool" where
  "has_magic s = (CHR ''*'' \<in> set s \<or> CHR ''?'' \<in> set s \<or> CHR ''['' \<in> set s)"

definition path_join :: "string \<Rightarrow> string \<Rightarrow> string" where
  "path_join a b =
     (if prefix ''/'' b then b
      else if a = [] \<or> suffix ''/'' a then a @ b
      else a @ ''/'' @ b)"

definition basename :: "string \<Rightarrow> string" where
  "basename p = rev (takeWhile (\<lambda>c. c \<noteq> CHR ''/'') (rev p))"

definition glob_json :: "string \<Rightarrow> string list \<Rightarrow> string list" where
  "glob_json directory names =
     map (path_join directory)
       (filter (\<lambda>n. suffix ''.json'' n \<and> \<not> prefix ''.'' n) names)"

text \<open>
  \<^verbatim>\<open>open(path)\<close> followed by \<^verbatim>\<open>json.load(f)\<close>: the parsed value, or the exception
  either of them raised. The files do not change while the context is built.
\<close>

type_synonym files = "string \<Rightarrow> exn + json"

text \<open>The lines the loaders print.\<close>

datatype log_line =
    ErrorReading string exn
  | Scanning string
  | SkippingFile string exn
  | LoadedBlocks nat

section \<open>The loaders\<close>

subsection \<open>\<^verbatim>\<open>load_and_parse_json\<close>\<close>

text \<open>The text appended for one entry that is a dict.\<close>

definition render_entry :: "(string \<times> json) list \<Rightarrow> string" where
  "render_entry entry =
     (let speaker = dict_get entry ''speaker'' (JStr ''Unknown'');
          question = dict_get entry ''question'' (JStr []);
          answer = dict_get entry ''answer'' (JStr [])
      in ''\<newline>'' @ py_str speaker @ '':\<newline>Q: '' @ py_str question
           @ ''\<newline>A: '' @ py_str answer)"

text \<open>The \<^verbatim>\<open>for entry in data\<close> loop, with \<open>parts\<close> as its state.\<close>

fun interview_loop :: "json list \<Rightarrow> string list \<Rightarrow> string list" where
  "interview_loop [] parts = parts"
| "interview_loop (entry # rest) parts =
     interview_loop rest
       (case entry of JDict kvs \<Rightarrow> parts @ [render_entry kvs] | _ \<Rightarrow> parts)"

definition interview_header :: "string \<Rightarrow> string" where
  "interview_header file_path = ''=== Interview File: '' @ basename file_path @ '' ===''"

text \<open>The body of the \<^verbatim>\<open>try\<close>, after the file is read.\<close>

definition interview_body :: "string \<Rightarrow> json \<Rightarrow> exn + string" where
  "interview_body file_path data =
     (case py_iter data of
        Inl e \<Rightarrow> Inl e
      | Inr entries \<Rightarrow>
          Inr (str_join ''\<newline>'' (interview_loop entries [interview_header file_path])))"

definition load_and_parse_json :: "files \<Rightarrow> string \<Rightarrow> log_line list \<times> string" where
  "load_and_parse_json fs file_path =
     (case (case fs file_path of Inl e \<Rightarrow> Inl e | Inr data \<Rightarrow> interview_body file_path data) of
        Inl e \<Rightarrow> ([ErrorReading file_path e], [])
      | Inr text \<Rightarrow> ([], text))"

subsection \<open>\<^verbatim>\<open>load_survey_json\<close>\<close>

fun summary_loop :: "(string \<times> json) list \<Rightarrow> string list \<Rightarrow> string list" where
  "summary_loop [] parts = parts"
| "summary_loop ((section, values) # rest) parts =
     summary_loop rest (parts @ [''\<newline>['' @ upper section @ '']'', json_dumps values])"

fun insights_loop :: "(string \<times> json) list \<Rightarrow> string list \<Rightarrow> string list" where
  "insights_loop [] parts = parts"
| "insights_loop ((question, summary) # rest) parts =
     insights_loop rest
       (parts @ [''\<newline>Q: '' @ question @ ''\<newline>Summary: '' @ py_str summary])"

definition survey_header :: "string \<Rightarrow> string" where
  "survey_header file_path = ''=== Survey Analytics File: '' @ basename file_path @ '' ===''"

text \<open>The two \<^verbatim>\<open>if\<close> blocks of the body, each from the parts so far to the parts after.\<close>

definition summary_block :: "json \<Rightarrow> string list \<Rightarrow> exn + string list" where
  "summary_block data parts =
     (case py_in ''survey_summary'' data of
        Inl e \<Rightarrow> Inl e
      | Inr False \<Rightarrow> Inr parts
      | Inr True \<Rightarrow>
          (case py_getitem data ''survey_summary'' of
             Inl e \<Rightarrow> Inl e
           | Inr v \<Rightarrow>
               (case py_items v of
                  Inl e \<Rightarrow> Inl e
                | Inr items \<Rightarrow>
                    Inr (summary_loop items (parts @ [''\<newline>--- SURVEY SUMMARY ---''])))))"

definition insights_block :: "json \<Rightarrow> string list \<Rightarrow> exn + string list" where
  "insights_block data parts =
     (case py_in ''free_text_insights'' data of
        Inl e \<Rightarrow> Inl e
      | Inr False \<Rightarrow> Inr parts
      | Inr True \<Rightarrow>
          (case py_getitem data ''free_text_insights'' of
             Inl e \<Rightarrow> Inl e
           | Inr v \<Rightarrow>
               (case py_items v of
                  Inl e \<Rightarrow> Inl e
                | Inr items \<Rightarrow>
                    Inr (insights_loop items (parts @ [''\<newline>--- FREE TEXT INSIGHTS ---''])))))"

definition survey_body :: "string \<Rightarrow> json \<Rightarrow> exn + string" where
  "survey_body file_path data =
     (case summary_block data [survey_header file_path] of
        Inl e \<Rightarrow> Inl e
      | Inr parts \<Rightarrow>
          (case insights_block data parts of
             Inl e \<Rightarrow> Inl e
           | Inr parts' \<Rightarrow> Inr (str_join ''\<newline>'' parts')))"

definition load_survey_json :: "files \<Rightarrow> string \<Rightarrow> log_line list \<times> string" where
  "load_survey_json fs file_path =
     (case (case fs file_path of Inl e \<Rightarrow> Inl e | Inr data \<Rightarrow> survey_body file_path data) of
        Inl e \<Rightarrow> ([ErrorReading file_path e], [])
      | Inr text \<Rightarrow> ([], text))"

subsection \<open>\<^verbatim>\<open>load_context\<close>\<close>

text \<open>The test that skips a path, on the whole path string.\<close>

definition skipped :: "string \<Rightarrow> bool" where
  "skipped path = (str_contains ''package'' path \<or> str_contains ''lock'' path)"

text \<open>
  One turn of the \<^verbatim>\<open>for path in json_paths\<close> loop. The state is the lines printed so
  far and \<open>parts\<close>.
\<close>

definition visit :: "files \<Rightarrow> string \<Rightarrow> log_line list \<times> string list \<Rightarrow> log_line list \<times> string list" where
  "visit fs path st =
     (if skipped path then st
      else
        (case fs path of
           Inl e \<Rightarrow> (fst st @ [SkippingFile path e], snd st)
         | Inr data \<Rightarrow>
             (case data of
                JList xs \<Rightarrow>
                  (let r = load_and_parse_json fs path in (fst st @ fst r, snd st @ [snd r]))
              | JDict kvs \<Rightarrow>
                  (if ''survey_summary'' \<in> set (map fst kvs)
                      \<or> ''free_text_insights'' \<in> set (map fst kvs)
                   then (let r = load_survey_json fs path in (fst st @ fst r, snd st @ [snd r]))
                   else st)
              | _ \<Rightarrow> st)))"

fun load_loop :: "files \<Rightarrow> string list \<Rightarrow> log_line list \<times> string list \<Rightarrow> log_line list \<times> string list" where
  "load_loop fs [] st = st"
| "load_loop fs (path # rest) st = load_loop fs rest (visit fs path st)"

text \<open>
  \<^verbatim>\<open>load_context()\<close> in the directory \<open>cwd\<close> holding the names \<open>names\<close>: the lines
  printed and the context returned.
\<close>

definition load_context :: "string \<Rightarrow> string list \<Rightarrow> files \<Rightarrow> log_line list \<times> string" where
  "load_context cwd names fs =
     (let directory = cwd;
          json_paths = sort (glob_json directory names);
          st = load_loop fs json_paths ([Scanning directory], [])
      in (fst st @ [LoadedBlocks (length (snd st))], str_join ''\<newline>\<newline>'' (snd st)))"

section \<open>The chat route\<close>

text \<open>
  The handler's surroundings are its parameters: \<open>client\<close> is the module's
  \<^verbatim>\<open>client\<close>, absent when its initialisation failed, and present as the function from
  the query to what \<^verbatim>\<open>client.models.generate_content(...)\<close> and the reading of
  \<^verbatim>\<open>response.text\<close> give: the text, \<^verbatim>\<open>None\<close> when the response has no text, or the
  message of the exception raised; \<open>request_json\<close> is what
  reading \<^verbatim>\<open>request.json\<close> gives, the parsed body or the message of the exception
  raised. The outcome is the body given to \<^verbatim>\<open>jsonify\<close>, the status, and the queries
  sent to the completion service.
\<close>

type_synonym service = "json \<Rightarrow> string + string option"

record outcome =
  body :: json
  status :: nat
  sent :: "json list"

text \<open>\<^verbatim>\<open>type(v).__name__\<close>.\<close>

definition type_name :: "json \<Rightarrow> string" where
  "type_name v =
     (case v of
        JNull \<Rightarrow> ''NoneType'' | JBool b \<Rightarrow> ''bool'' | JInt i \<Rightarrow> ''int''
      | JFloat f \<Rightarrow> ''float'' | JStr s \<Rightarrow> ''str'' | JList xs \<Rightarrow> ''list''
      | JDict kvs \<Rightarrow> ''dict'')"

text \<open>
  \<^verbatim>\<open>user_data.get('message')\<close>: the value, \<^verbatim>\<open>None\<close> for a dict without the key, and
  for any other value the message of the \<^verbatim>\<open>AttributeError\<close>.
\<close>

definition get_message :: "json \<Rightarrow> string + json" where
  "get_message user_data =
     (case user_data of
        JDict kvs \<Rightarrow> Inr (dict_get kvs ''message'' JNull)
      | _ \<Rightarrow> Inl ([CHR 0x27] @ type_name user_data @ [CHR 0x27]
                 @ '' object has no attribute '' @ [CHR 0x27] @ ''get'' @ [CHR 0x27]))"

text \<open>The truth value of a Python value, as \<^verbatim>\<open>not user_query\<close> tests it.\<close>

definition truthy :: "json \<Rightarrow> bool" where
  "truthy v =
     (case v of
        JNull \<Rightarrow> False
      | JBool b \<Rightarrow> b
      | JInt i \<Rightarrow> i \<noteq> 0
      | JFloat f \<Rightarrow> f \<noteq> FloatRepr ''0.0'' \<and> f \<noteq> FloatRepr ''-0.0''
      | JStr s \<Rightarrow> s \<noteq> []
      | JList xs \<Rightarrow> xs \<noteq> []
      | JDict kvs \<Rightarrow> kvs \<noteq> [])"

text \<open>What \<^verbatim>\<open>jsonify\<close> writes for \<^verbatim>\<open>response.text\<close>: the string, or null for \<^verbatim>\<open>None\<close>.\<close>

definition jsonify_text :: "string option \<Rightarrow> json" where
  "jsonify_text text = (case text of None \<Rightarrow> JNull | Some t \<Rightarrow> JStr t)"

definition error_reply :: "string \<Rightarrow> nat \<Rightarrow> json list \<Rightarrow> outcome" where
  "error_reply msg code qs = \<lparr>body = JDict [(''error'', JStr msg)], status = code, sent = qs\<rparr>"

definition chat :: "service option \<Rightarrow> string + json \<Rightarrow> outcome" where
  "chat client request_json =
     (case client of
        None \<Rightarrow>
          error_reply
            ''Backend Configuration Error: Google API Key is missing or invalid on the server.''
            500 []
      | Some generate_content \<Rightarrow>
          (case request_json of
             Inl e \<Rightarrow> error_reply e 500 []
           | Inr user_data \<Rightarrow>
               (case get_message user_data of
                  Inl e \<Rightarrow> error_reply e 500 []
                | Inr user_query \<Rightarrow>
                    if \<not> truthy user_query then error_reply ''No message provided'' 400 []
                    else
                      (case generate_content user_query of
                         Inl e \<Rightarrow> error_reply e 500 [user_query]
                       | Inr text \<Rightarrow>
                           \<lparr>body = JDict [(''response'', jsonify_text text)], status = 200,
                            sent = [user_query]\<rparr>))))"

section \<open>What the specification says, in its own words\<close>

text \<open>
  The paths the loop of \<^verbatim>\<open>load_context\<close> works on: the sorted result of the glob,
  without the paths the loop skips.
\<close>

definition discover :: "string \<Rightarrow> string list \<Rightarrow> string list" where
  "discover cwd names = filter (\<lambda>p. \<not> skipped p) (sort (glob_json cwd names))"

text \<open>
  Discovery as the specification words it: the files with the JSON extension in the
  directory, sorted, without those whose name has \<^verbatim>\<open>package\<close> or \<^verbatim>\<open>lock\<close> in it.
\<close>

definition discover_spec :: "string \<Rightarrow> string list \<Rightarrow> string list" where
  "discover_spec cwd names =
     sort (map (path_join cwd)
       (filter (\<lambda>n. suffix ''.json'' n
                  \<and> \<not> (str_contains ''package'' n \<or> str_contains ''lock'' n)) names))"

text \<open>
  The three shapes of a parsed root, decided in the order of the specification: a
  sequence, else a mapping with one of the two survey keys, else unrecognised.
\<close>

datatype shape = Interview | Survey | Unrecognized

definition classify :: "json \<Rightarrow> shape" where
  "classify data =
     (case data of
        JList xs \<Rightarrow> Interview
      | JDict kvs \<Rightarrow>
          (if map_of kvs ''survey_summary'' \<noteq> None \<or> map_of kvs ''free_text_insights'' \<noteq> None
           then Survey else Unrecognized)
      | _ \<Rightarrow> Unrecognized)"

text \<open>A recognised file is one that parses to an interview or a survey shape.\<close>

definition recognized :: "files \<Rightarrow> string \<Rightarrow> bool" where
  "recognized fs p = (case fs p of Inl e \<Rightarrow> False | Inr data \<Rightarrow> classify data \<noteq> Unrecognized)"

text \<open>The rendered block of a recognised file: what its loader returns.\<close>

definition rendered_block :: "files \<Rightarrow> string \<Rightarrow> string" where
  "rendered_block fs p =
     (case fs p of
        Inl e \<Rightarrow> []
      | Inr data \<Rightarrow>
          (case classify data of
             Interview \<Rightarrow> snd (load_and_parse_json fs p)
           | Survey \<Rightarrow> snd (load_survey_json fs p)
           | Unrecognized \<Rightarrow> []))"

text \<open>
  The context as the specification words it: the non-empty rendered blocks of the
  recognised files in discovery order, joined by one blank line.
\<close>

definition context_spec :: "string \<Rightarrow> string list \<Rightarrow> files \<Rightarrow> string" where
  "context_spec cwd names fs =
     str_join ''\<newline>\<newline>''
       (filter (\<lambda>b. b \<noteq> [])
          (map (rendered_block fs) (filter (recognized fs) (discover cwd names))))"

text \<open>
  The interview rendering as lines: the header, then for each element that is a
  mapping a blank line, the speaker with a colon, the question and the answer. A field
  shows the text of its value, or its default when the key is missing.
\<close>

definition field_text :: "(string \<times> json) list \<Rightarrow> string \<Rightarrow> string \<Rightarrow> string" where
  "field_text entry key dflt = (case map_of entry key of None \<Rightarrow> dflt | Some v \<Rightarrow> py_str v)"

fun entry_lines :: "json \<Rightarrow> string list" where
  "entry_lines (JDict entry) =
     [[], field_text entry ''speaker'' ''Unknown'' @ '':'',
      ''Q: '' @ field_text entry ''question'' [],
      ''A: '' @ field_text entry ''answer'' []]"
| "entry_lines v = []"

definition interview_lines :: "string \<Rightarrow> json list \<Rightarrow> string list" where
  "interview_lines name xs =
     (''=== Interview File: '' @ name @ '' ==='') # concat (map entry_lines xs)"

text \<open>
  The survey rendering as lines: the header; for a present \<^verbatim>\<open>survey_summary\<close> a blank
  line and the marker, then for each section a blank line, the heading in brackets and
  the serialised value; for a present \<^verbatim>\<open>free_text_insights\<close> a blank line and the
  marker, then for each question a blank line, the question and the summary.
\<close>

definition section_lines :: "string \<times> json \<Rightarrow> string list" where
  "section_lines sv = [[], ''['' @ upper (fst sv) @ '']'', json_dumps (snd sv)]"

definition insight_lines :: "string \<times> json \<Rightarrow> string list" where
  "insight_lines qs = [[], ''Q: '' @ fst qs, ''Summary: '' @ py_str (snd qs)]"

definition summary_lines :: "(string \<times> json) list \<Rightarrow> string list" where
  "summary_lines kvs =
     (case map_of kvs ''survey_summary'' of
        Some (JDict sections) \<Rightarrow>
          [[], ''--- SURVEY SUMMARY ---''] @ concat (map section_lines sections)
      | _ \<Rightarrow> [])"

definition insights_lines :: "(string \<times> json) list \<Rightarrow> string list" where
  "insights_lines kvs =
     (case map_of kvs ''free_text_insights'' of
        Some (JDict questions) \<Rightarrow>
          [[], ''--- FREE TEXT INSIGHTS ---''] @ concat (map insight_lines questions)
      | _ \<Rightarrow> [])"

definition survey_lines :: "string \<Rightarrow> (string \<times> json) list \<Rightarrow> string list" where
  "survey_lines name kvs =
     (''=== Survey Analytics File: '' @ name @ '' ==='') # summary_lines kvs @ insights_lines kvs"

text \<open>A section of a survey is well formed when it is absent or a mapping.\<close>

definition is_mapping :: "json \<Rightarrow> bool" where
  "is_mapping v = (case v of JDict kvs \<Rightarrow> True | _ \<Rightarrow> False)"

definition section_ok :: "(string \<times> json) list \<Rightarrow> string \<Rightarrow> bool" where
  "section_ok kvs key = (case map_of kvs key of None \<Rightarrow> True | Some v \<Rightarrow> is_mapping v)"

text \<open>
  The section names of a survey are in range when none of them has a character whose
  upper-case form lies above code point 255.
\<close>

definition sections_in_range :: "(string \<times> json) list \<Rightarrow> bool" where
  "sections_in_range kvs =
     (case map_of kvs ''survey_summary'' of
        Some (JDict sections) \<Rightarrow> list_all (\<lambda>sv. upper_in_range (fst sv)) sections
      | _ \<Rightarrow> True)"

section \<open>Concrete surroundings\<close>

text \<open>
  A file system given by a table from path to what reading the path gives; a path
  outside the table cannot be opened. Three completion services: one that answers every
  query with the same text, one whose response never has a text, one that fails on every
  query with the same message.
\<close>

definition files_of :: "(string \<times> (exn + json)) list \<Rightarrow> files" where
  "files_of table p =
     (case map_of table p of None \<Rightarrow> Inl (LoadError ''No such file or directory'') | Some r \<Rightarrow> r)"

definition answering :: "string \<Rightarrow> service" where
  "answering text q = Inr (Some text)"

definition silent :: service where
  "silent q = Inr None"

definition failing :: "string \<Rightarrow> service" where
  "failing msg q = Inl msg"

section \<open>Auxiliary facts\<close>

subsection \<open>Joining parts and joining lines\<close>

lemma str_join_snoc: "parts \<noteq> [] \<Longrightarrow> str_join sep (parts @ [x]) = str_join sep parts @ sep @ x"
  by (induction sep parts rule: str_join.induct) auto

lemma str_join_append:
  "xs \<noteq> [] \<Longrightarrow> ys \<noteq> [] \<Longrightarrow> str_join sep (xs @ ys) = str_join sep xs @ sep @ str_join sep ys"
  by (induction sep xs rule: str_join.induct) (auto simp: neq_Nil_conv)

lemma py_str_JStr: "py_str (JStr s) = s"
  by (simp add: py_str_def)

lemma field_text_get: "py_str (dict_get kvs key (JStr dflt)) = field_text kvs key dflt"
  by (simp add: dict_get_def field_text_def py_str_JStr split: option.splits)

lemma render_entry_lines: "render_entry kvs = str_join ''\<newline>'' (entry_lines (JDict kvs))"
  by (simp add: render_entry_def field_text_get)

lemma interview_loop_lines:
  "parts \<noteq> [] \<Longrightarrow> ls \<noteq> [] \<Longrightarrow> str_join ''\<newline>'' parts = str_join ''\<newline>'' ls \<Longrightarrow>
   str_join ''\<newline>'' (interview_loop xs parts) = str_join ''\<newline>'' (ls @ concat (map entry_lines xs))"
proof (induction xs arbitrary: parts ls)
  case Nil
  then show ?case by simp
next
  case (Cons x xs)
  let ?parts = "case x of JDict kvs \<Rightarrow> parts @ [render_entry kvs] | _ \<Rightarrow> parts"
  have step: "str_join ''\<newline>'' ?parts = str_join ''\<newline>'' (ls @ entry_lines x)"
  proof (cases x)
    case (JDict kvs)
    have "str_join ''\<newline>'' (parts @ [render_entry kvs])
        = str_join ''\<newline>'' parts @ ''\<newline>'' @ render_entry kvs"
      using Cons.prems(1) by (rule str_join_snoc)
    also have "\<dots> = str_join ''\<newline>'' ls @ ''\<newline>'' @ str_join ''\<newline>'' (entry_lines x)"
      using Cons.prems(3) JDict by (simp only: render_entry_lines)
    also have "\<dots> = str_join ''\<newline>'' (ls @ entry_lines x)"
      using Cons.prems(2) JDict by (subst str_join_append) simp_all
    finally show ?thesis using JDict by simp
  qed (simp_all add: Cons.prems(3))
  have "?parts \<noteq> []"
    using Cons.prems(1) by (cases x) simp_all
  moreover have "ls @ entry_lines x \<noteq> []"
    using Cons.prems(2) by simp
  ultimately have "str_join ''\<newline>'' (interview_loop xs ?parts)
      = str_join ''\<newline>'' ((ls @ entry_lines x) @ concat (map entry_lines xs))"
    using step by (rule Cons.IH)
  then show ?case by simp
qed

lemma load_and_parse_json_list:
  assumes "fs p = Inr (JList xs)"
  shows "load_and_parse_json fs p = ([], str_join ''\<newline>'' (interview_lines (basename p) xs))"
  using assms interview_loop_lines [of "[interview_header p]" "[interview_header p]" xs]
  by (simp add: load_and_parse_json_def interview_body_def py_iter_def interview_lines_def interview_header_def)


lemma str_join_snoc2:
  "parts \<noteq> [] \<Longrightarrow> str_join sep (parts @ [x, y]) = str_join sep parts @ sep @ x @ sep @ y"
  using str_join_append [of parts "[x, y]" sep] by simp

lemma summary_loop_lines:
  "parts \<noteq> [] \<Longrightarrow> ls \<noteq> [] \<Longrightarrow> str_join ''\<newline>'' parts = str_join ''\<newline>'' ls \<Longrightarrow>
   summary_loop items parts \<noteq> [] \<and>
   str_join ''\<newline>'' (summary_loop items parts)
     = str_join ''\<newline>'' (ls @ concat (map section_lines items))"
proof (induction items arbitrary: parts ls)
  case Nil
  then show ?case by simp
next
  case (Cons sv items)
  obtain s v where sv: "sv = (s, v)" by (cases sv)
  let ?parts = "parts @ [''\<newline>['' @ upper s @ '']'', json_dumps v]"
  have "str_join ''\<newline>'' ?parts
      = str_join ''\<newline>'' parts @ ''\<newline>'' @ (''\<newline>['' @ upper s @ '']'') @ ''\<newline>'' @ json_dumps v"
    using Cons.prems(1) by (rule str_join_snoc2)
  also have "\<dots> = str_join ''\<newline>'' ls @ ''\<newline>'' @ str_join ''\<newline>'' (section_lines sv)"
    using Cons.prems(3) sv by (simp add: section_lines_def)
  also have "\<dots> = str_join ''\<newline>'' (ls @ section_lines sv)"
    using Cons.prems(2) by (subst str_join_append) (simp_all add: section_lines_def)
  finally have step: "str_join ''\<newline>'' ?parts = str_join ''\<newline>'' (ls @ section_lines sv)" .
  have "?parts \<noteq> []" and "ls @ section_lines sv \<noteq> []"
    using Cons.prems(2) by simp_all
  then have "summary_loop items ?parts \<noteq> [] \<and>
      str_join ''\<newline>'' (summary_loop items ?parts)
        = str_join ''\<newline>'' ((ls @ section_lines sv) @ concat (map section_lines items))"
    using step by (rule Cons.IH)
  then show ?case using sv by simp
qed

lemma insights_loop_lines:
  "parts \<noteq> [] \<Longrightarrow> ls \<noteq> [] \<Longrightarrow> str_join ''\<newline>'' parts = str_join ''\<newline>'' ls \<Longrightarrow>
   insights_loop items parts \<noteq> [] \<and>
   str_join ''\<newline>'' (insights_loop items parts)
     = str_join ''\<newline>'' (ls @ concat (map insight_lines items))"
proof (induction items arbitrary: parts ls)
  case Nil
  then show ?case by simp
next
  case (Cons qs items)
  obtain q s where qs: "qs = (q, s)" by (cases qs)
  let ?parts = "parts @ [''\<newline>Q: '' @ q @ ''\<newline>Summary: '' @ py_str s]"
  have "str_join ''\<newline>'' ?parts
      = str_join ''\<newline>'' parts @ ''\<newline>'' @ (''\<newline>Q: '' @ q @ ''\<newline>Summary: '' @ py_str s)"
    using Cons.prems(1) by (rule str_join_snoc)
  also have "\<dots> = str_join ''\<newline>'' ls @ ''\<newline>'' @ str_join ''\<newline>'' (insight_lines qs)"
    using Cons.prems(3) qs by (simp add: insight_lines_def)
  also have "\<dots> = str_join ''\<newline>'' (ls @ insight_lines qs)"
    using Cons.prems(2) by (subst str_join_append) (simp_all add: insight_lines_def)
  finally have step: "str_join ''\<newline>'' ?parts = str_join ''\<newline>'' (ls @ insight_lines qs)" .
  have "?parts \<noteq> []" and "ls @ insight_lines qs \<noteq> []"
    using Cons.prems(2) by simp_all
  then have "insights_loop items ?parts \<noteq> [] \<and>
      str_join ''\<newline>'' (insights_loop items ?parts)
        = str_join ''\<newline>'' ((ls @ insight_lines qs) @ concat (map insight_lines items))"
    using step by (rule Cons.IH)
  then show ?case using qs by simp
qed

lemma key_absent: "map_of kvs key = None \<Longrightarrow> key \<notin> fst ` set kvs"
  by (simp add: map_of_eq_None_iff)

lemma key_present: "map_of kvs key = Some v \<Longrightarrow> key \<in> fst ` set kvs"
  by (metis map_of_eq_None_iff option.distinct(1))

lemma summary_block_ok:
  assumes "section_ok kvs ''survey_summary''" "parts \<noteq> []" "ls \<noteq> []"
    "str_join ''\<newline>'' parts = str_join ''\<newline>'' ls"
  shows "\<exists>parts'. summary_block (JDict kvs) parts = Inr parts' \<and> parts' \<noteq> [] \<and>
     str_join ''\<newline>'' parts' = str_join ''\<newline>'' (ls @ summary_lines kvs)"
proof (cases "map_of kvs ''survey_summary''")
  case None
  then show ?thesis
    using assms key_absent [OF None] by (simp add: summary_block_def py_in_def summary_lines_def)
next
  case (Some v)
  then obtain sections where v: "v = JDict sections"
    using assms(1) by (cases v) (simp_all add: section_ok_def is_mapping_def)
  let ?parts = "parts @ [''\<newline>--- SURVEY SUMMARY ---'']"
  let ?ls = "ls @ [[], ''--- SURVEY SUMMARY ---'']"
  have "str_join ''\<newline>'' ?parts = str_join ''\<newline>'' parts @ ''\<newline>'' @ ''\<newline>--- SURVEY SUMMARY ---''"
    using assms(2) by (rule str_join_snoc)
  also have "\<dots> = str_join ''\<newline>'' ls @ ''\<newline>'' @ str_join ''\<newline>'' [[], ''--- SURVEY SUMMARY ---'']"
    using assms(4) by simp
  also have "\<dots> = str_join ''\<newline>'' ?ls"
    using assms(3) by (subst str_join_append) simp_all
  finally have "str_join ''\<newline>'' ?parts = str_join ''\<newline>'' ?ls" .
  moreover have "?parts \<noteq> []" "?ls \<noteq> []" by simp_all
  ultimately have "summary_loop sections ?parts \<noteq> [] \<and>
      str_join ''\<newline>'' (summary_loop sections ?parts)
        = str_join ''\<newline>'' (?ls @ concat (map section_lines sections))"
    by (intro summary_loop_lines)
  then show ?thesis
    using Some v key_present [OF Some]
    by (simp add: summary_block_def py_in_def py_getitem_def py_items_def summary_lines_def)
qed

lemma summary_block_bad:
  assumes "\<not> section_ok kvs ''survey_summary''"
  shows "summary_block (JDict kvs) parts = Inl AttributeError"
proof -
  obtain v where v: "map_of kvs ''survey_summary'' = Some v" "\<not> is_mapping v"
    using assms by (auto simp: section_ok_def split: option.splits)
  then show ?thesis
    using key_present [OF v(1)]
    by (cases v)
      (simp_all add: summary_block_def py_in_def py_getitem_def py_items_def is_mapping_def)
qed

lemma insights_block_ok:
  assumes "section_ok kvs ''free_text_insights''" "parts \<noteq> []" "ls \<noteq> []"
    "str_join ''\<newline>'' parts = str_join ''\<newline>'' ls"
  shows "\<exists>parts'. insights_block (JDict kvs) parts = Inr parts' \<and> parts' \<noteq> [] \<and>
     str_join ''\<newline>'' parts' = str_join ''\<newline>'' (ls @ insights_lines kvs)"
proof (cases "map_of kvs ''free_text_insights''")
  case None
  then show ?thesis
    using assms key_absent [OF None] by (simp add: insights_block_def py_in_def insights_lines_def)
next
  case (Some v)
  then obtain questions where v: "v = JDict questions"
    using assms(1) by (cases v) (simp_all add: section_ok_def is_mapping_def)
  let ?parts = "parts @ [''\<newline>--- FREE TEXT INSIGHTS ---'']"
  let ?ls = "ls @ [[], ''--- FREE TEXT INSIGHTS ---'']"
  have "str_join ''\<newline>'' ?parts = str_join ''\<newline>'' parts @ ''\<newline>'' @ ''\<newline>--- FREE TEXT INSIGHTS ---''"
    using assms(2) by (rule str_join_snoc)
  also have "\<dots> = str_join ''\<newline>'' ls @ ''\<newline>'' @ str_join ''\<newline>'' [[], ''--- FREE TEXT INSIGHTS ---'']"
    using assms(4) by simp
  also have "\<dots> = str_join ''\<newline>'' ?ls"
    using assms(3) by (subst str_join_append) simp_all
  finally have "str_join ''\<newline>'' ?parts = str_join ''\<newline>'' ?ls" .
  moreover have "?parts \<noteq> []" "?ls \<noteq> []" by simp_all
  ultimately have "insights_loop questions ?parts \<noteq> [] \<and>
      str_join ''\<newline>'' (insights_loop questions ?parts)
        = str_join ''\<newline>'' (?ls @ concat (map insight_lines questions))"
    by (intro insights_loop_lines)
  then show ?thesis
    using Some v key_present [OF Some]
    by (simp add: insights_block_def py_in_def py_getitem_def py_items_def insights_lines_def)
qed

lemma insights_block_bad:
  assumes "\<not> section_ok kvs ''free_text_insights''"
  shows "insights_block (JDict kvs) parts = Inl AttributeError"
proof -
  obtain v where v: "map_of kvs ''free_text_insights'' = Some v" "\<not> is_mapping v"
    using assms by (auto simp: section_ok_def split: option.splits)
  then show ?thesis
    using key_present [OF v(1)]
    by (cases v)
      (simp_all add: insights_block_def py_in_def py_getitem_def py_items_def is_mapping_def)
qed

lemma survey_body_dict:
  "survey_body p (JDict kvs) =
     (if section_ok kvs ''survey_summary'' \<and> section_ok kvs ''free_text_insights''
      then Inr (str_join ''\<newline>'' (survey_lines (basename p) kvs))
      else Inl AttributeError)"
proof (cases "section_ok kvs ''survey_summary''")
  case False
  then show ?thesis by (simp add: survey_body_def summary_block_bad)
next
  case True
  then obtain parts where parts: "summary_block (JDict kvs) [survey_header p] = Inr parts"
      "parts \<noteq> []"
      "str_join ''\<newline>'' parts = str_join ''\<newline>'' ([survey_header p] @ summary_lines kvs)"
    using summary_block_ok [of kvs "[survey_header p]" "[survey_header p]"] by auto
  show ?thesis
  proof (cases "section_ok kvs ''free_text_insights''")
    case False
    then show ?thesis using parts by (simp add: survey_body_def insights_block_bad)
  next
    case ok: True
    obtain parts' where "insights_block (JDict kvs) parts = Inr parts'"
      "str_join ''\<newline>'' parts'
         = str_join ''\<newline>'' (([survey_header p] @ summary_lines kvs) @ insights_lines kvs)"
      using insights_block_ok [OF ok parts(2) _ parts(3)] by auto
    then show ?thesis
      using parts True ok by (simp add: survey_body_def survey_lines_def survey_header_def)
  qed
qed

subsection \<open>Substrings, paths and the loop over the files\<close>

lemma str_contains_iff: "str_contains sub s \<longleftrightarrow> (\<exists>a b. s = a @ sub @ b)"
proof (induction s)
  case Nil
  then show ?case by auto
next
  case (Cons c cs)
  show ?case
  proof
    assume "str_contains sub (c # cs)"
    then consider "prefix sub (c # cs)" | "str_contains sub cs" by auto
    then show "\<exists>a b. c # cs = a @ sub @ b"
    proof cases
      case 1
      then obtain b where "c # cs = sub @ b" by (auto simp: prefix_def)
      then have "c # cs = [] @ sub @ b" by simp
      then show ?thesis by blast
    next
      case 2
      then obtain a b where "cs = a @ sub @ b" using Cons.IH by auto
      then have "c # cs = (c # a) @ sub @ b" by simp
      then show ?thesis by blast
    qed
  next
    assume "\<exists>a b. c # cs = a @ sub @ b"
    then obtain a b where ab: "c # cs = a @ sub @ b" by auto
    show "str_contains sub (c # cs)"
    proof (cases a)
      case Nil
      then have "prefix sub (c # cs)" using ab by (simp add: prefix_def)
      then show ?thesis by simp
    next
      case (Cons a0 as)
      then have "cs = as @ sub @ b" using ab by simp
      then have "str_contains sub cs" using Cons.IH by blast
      then show ?thesis by simp
    qed
  qed
qed

lemma path_join_ends: "\<exists>d. path_join cwd n = d @ n"
proof -
  have "n = [] @ n" "cwd @ n = cwd @ n" "cwd @ ''/'' @ n = (cwd @ ''/'') @ n"
    by simp_all
  then show ?thesis unfolding path_join_def by (metis (full_types))
qed

lemma skipped_name:
  assumes "str_contains ''package'' n \<or> str_contains ''lock'' n"
  shows "skipped (path_join cwd n)"
proof -
  obtain d where d: "path_join cwd n = d @ n" using path_join_ends by blast
  have "str_contains sub (d @ n)" if "str_contains sub n" for sub
  proof -
    from that obtain a b where "n = a @ sub @ b" by (auto simp: str_contains_iff)
    then have "d @ n = (d @ a) @ sub @ b" by simp
    then show ?thesis unfolding str_contains_iff by blast
  qed
  then show ?thesis using assms d by (auto simp: skipped_def)
qed

lemma visit_append:
  "visit fs p st = (fst st @ fst (visit fs p ([], [])), snd st @ snd (visit fs p ([], [])))"
  by (cases st) (simp add: visit_def Let_def split: sum.splits json.splits)

lemma load_loop_concat:
  "load_loop fs ps st =
     (fst st @ concat (map (\<lambda>p. fst (visit fs p ([], []))) ps),
      snd st @ concat (map (\<lambda>p. snd (visit fs p ([], []))) ps))"
proof (induction ps arbitrary: st)
  case Nil
  then show ?case by simp
next
  case (Cons p ps)
  show ?case
    by (simp add: Cons.IH) (subst visit_append, simp)+
qed

lemma visit_blocks:
  "snd (visit fs p ([], [])) =
     (if \<not> skipped p \<and> recognized fs p then [rendered_block fs p] else [])"
  by (simp add: visit_def recognized_def rendered_block_def classify_def map_of_eq_None_iff Let_def
      split: sum.splits json.splits)

lemma concat_map_if:
  "concat (map (\<lambda>p. if P p then [f p] else []) ps) = map f (filter P ps)"
  by (induction ps) simp_all

lemma load_loop_parts:
  "snd (load_loop fs ps ([Scanning d], [])) =
     map (rendered_block fs) (filter (recognized fs) (filter (\<lambda>p. \<not> skipped p) ps))"
proof -
  have "snd (load_loop fs ps ([Scanning d], []))
      = concat (map (\<lambda>p. if \<not> skipped p \<and> recognized fs p then [rendered_block fs p] else []) ps)"
    by (simp add: load_loop_concat visit_blocks)
  also have "\<dots> = map (rendered_block fs) (filter (\<lambda>p. \<not> skipped p \<and> recognized fs p) ps)"
    by (rule concat_map_if)
  finally show ?thesis by (simp add: conj_commute)
qed

lemma load_context_blocks:
  "snd (load_context cwd names fs) =
     str_join ''\<newline>\<newline>'' (map (rendered_block fs) (filter (recognized fs) (discover cwd names)))"
  by (simp add: load_context_def Let_def load_loop_parts discover_def)

subsection \<open>Parts inside the joined text\<close>

lemma str_join_has_part: "x \<in> set parts \<Longrightarrow> \<exists>a b. str_join sep parts = a @ x @ b"
proof (induction sep parts rule: str_join.induct)
  case (1 sep)
  then show ?case by simp
next
  case (2 sep y)
  then have "str_join sep [y] = [] @ x @ []" by simp
  then show ?case by blast
next
  case (3 sep y z zs)
  show ?case
  proof (cases "x = y")
    case True
    then have "str_join sep (y # z # zs) = [] @ x @ (sep @ str_join sep (z # zs))" by simp
    then show ?thesis by blast
  next
    case False
    then have "x \<in> set (z # zs)" using 3 by simp
    then obtain a b where "str_join sep (z # zs) = a @ x @ b" using 3 by blast
    then have "str_join sep (y # z # zs) = (y @ sep @ a) @ x @ b" by simp
    then show ?thesis by blast
  qed
qed

lemma interview_loop_parts:
  "interview_loop xs parts =
     parts @ concat (map (\<lambda>x. case x of JDict kvs \<Rightarrow> [render_entry kvs] | _ \<Rightarrow> []) xs)"
  by (induction xs arbitrary: parts) (simp_all split: json.splits)

lemma interview_has_entry:
  assumes "fs p = Inr (JList xs)" "JDict entry \<in> set xs"
  shows "str_contains (render_entry entry) (snd (load_and_parse_json fs p))"
proof -
  have "render_entry entry \<in> set (interview_loop xs [interview_header p])"
    using assms(2) by (force simp: interview_loop_parts)
  then have "\<exists>a b. str_join ''\<newline>'' (interview_loop xs [interview_header p])
      = a @ render_entry entry @ b"
    by (rule str_join_has_part)
  then show ?thesis
    using assms(1)
    by (simp add: load_and_parse_json_def interview_body_def py_iter_def str_contains_iff)
qed

lemma render_entry_fields:
  "render_entry entry =
     ''\<newline>'' @ field_text entry ''speaker'' ''Unknown'' @ '':\<newline>Q: ''
       @ field_text entry ''question'' [] @ ''\<newline>A: '' @ field_text entry ''answer'' []"
  by (simp add: render_entry_def field_text_get)
subsection \<open>Discovery and removing a file from the directory\<close>

lemma glob_json_remove:
  "glob_json cwd (filter (\<lambda>n. path_join cwd n \<noteq> p) names)
     = filter (\<lambda>q. q \<noteq> p) (glob_json cwd names)"
  by (induction names) (simp_all add: glob_json_def)

lemma discover_remove:
  "discover cwd (filter (\<lambda>n. path_join cwd n \<noteq> p) names)
     = filter (\<lambda>q. q \<noteq> p) (discover cwd names)"
proof -
  have "sort (filter (\<lambda>q. q \<noteq> p) (glob_json cwd names))
      = filter (\<lambda>q. q \<noteq> p) (sort (glob_json cwd names))"
    by (simp add: filter_sort)
  then show ?thesis
    by (simp add: discover_def glob_json_remove) (metis (mono_tags, lifting) filter_cong)
qed

lemma discover_drop_skipped_name:
  assumes "skipped (path_join cwd n0)"
  shows "discover cwd (filter (\<lambda>n. n \<noteq> n0) names) = discover cwd names"
proof -
  have "filter (\<lambda>p. \<not> skipped p) (glob_json cwd (filter (\<lambda>n. n \<noteq> n0) names))
      = filter (\<lambda>p. \<not> skipped p) (glob_json cwd names)"
    using assms by (induction names) (auto simp: glob_json_def)
  then show ?thesis
    by (simp add: discover_def filter_sort)
qed

lemma sorted_discover: "sorted (discover cwd names)"
  by (simp add: discover_def sorted_wrt_filter)

lemma visit_skipped: "skipped p \<Longrightarrow> visit fs p st = st"
  by (simp add: visit_def)

lemma load_loop_discover:
  "load_loop fs ps st = load_loop fs (filter (\<lambda>p. \<not> skipped p) ps) st"
  by (induction ps arbitrary: st) (simp_all add: visit_skipped)

lemma load_context_discover:
  "load_context cwd names fs =
     (let st = load_loop fs (discover cwd names) ([Scanning cwd], [])
      in (fst st @ [LoadedBlocks (length (snd st))], str_join ''\<newline>\<newline>'' (snd st)))"
  using load_loop_discover [of fs "sort (glob_json cwd names)" "([Scanning cwd], [])"]
  by (simp add: load_context_def discover_def Let_def)

lemma concat_map_remove:
  "f p = [] \<Longrightarrow> concat (map f (filter (\<lambda>q. q \<noteq> p) ps)) = concat (map f ps)"
  by (induction ps) simp_all

lemma load_loop_remove:
  assumes "visit fs p ([], []) = ([], [])"
  shows "load_loop fs (filter (\<lambda>q. q \<noteq> p) ps) st = load_loop fs ps st"
  using assms by (simp add: load_loop_concat concat_map_remove)

lemma load_context_remove:
  assumes "visit fs p ([], []) = ([], [])"
  shows "load_context cwd (filter (\<lambda>n. path_join cwd n \<noteq> p) names) fs = load_context cwd names fs"
  by (simp add: load_context_discover discover_remove load_loop_remove [OF assms])

lemma loader_reads_one_path:
  assumes "fs' p = fs p"
  shows "load_and_parse_json fs' p = load_and_parse_json fs p"
    and "load_survey_json fs' p = load_survey_json fs p"
  using assms by (simp_all add: load_and_parse_json_def load_survey_json_def)

lemma visit_reads_one_path:
  assumes "fs' p = fs p"
  shows "visit fs' p st = visit fs p st"
  by (simp only: visit_def assms loader_reads_one_path [of fs' p fs, OF assms])

lemma load_loop_cong:
  "(\<And>p. p \<in> set ps \<Longrightarrow> fs' p = fs p) \<Longrightarrow> load_loop fs' ps st = load_loop fs ps st"
proof (induction ps arbitrary: st)
  case Nil
  show ?case by simp
next
  case (Cons p ps)
  have "fs' p = fs p"
    using Cons.prems by simp
  then have "visit fs' p st = visit fs p st"
    by (rule visit_reads_one_path)
  moreover have "load_loop fs' ps st' = load_loop fs ps st'" for st'
    using Cons.prems by (intro Cons.IH) simp
  ultimately show ?case by simp
qed

lemma load_context_skipped_content:
  assumes "skipped p"
  shows "load_context cwd names (fs(p := r)) = load_context cwd names fs"
proof -
  have "load_loop (fs(p := r)) (discover cwd names) st = load_loop fs (discover cwd names) st" for st
    using assms by (intro load_loop_cong) (auto simp: discover_def)
  then show ?thesis
    by (simp add: load_context_discover)
qed

lemma visit_failure:
  "\<not> skipped p \<Longrightarrow> fs p = Inl e \<Longrightarrow> visit fs p ([], []) = ([SkippingFile p e], [])"
  by (simp add: visit_def)

lemma load_context_log:
  "fst (load_context cwd names fs) =
     Scanning cwd # concat (map (\<lambda>p. fst (visit fs p ([], []))) (discover cwd names))
       @ [LoadedBlocks (length (filter (recognized fs) (discover cwd names)))]"
proof -
  have "length (snd (load_loop fs (discover cwd names) ([Scanning cwd], [])))
      = length (filter (recognized fs) (discover cwd names))"
    by (simp add: load_loop_parts discover_def)
  then show ?thesis
    by (simp add: load_context_discover Let_def) (simp add: load_loop_concat)
qed

lemma not_recognized_failure: "fs p = Inl e \<Longrightarrow> \<not> recognized fs p"
  by (simp add: recognized_def)

lemma discover_as_sort:
  "discover cwd names =
     sort (map (path_join cwd)
       (filter (\<lambda>n. suffix ''.json'' n \<and> \<not> prefix ''.'' n \<and> \<not> skipped (path_join cwd n)) names))"
proof -
  have "filter (\<lambda>p. \<not> skipped p) (glob_json cwd names)
      = map (path_join cwd)
          (filter (\<lambda>n. suffix ''.json'' n \<and> \<not> prefix ''.'' n \<and> \<not> skipped (path_join cwd n)) names)"
    by (induction names) (simp_all add: glob_json_def)
  then show ?thesis
    by (simp add: discover_def filter_sort)
qed

section \<open>The claims\<close>

subsection \<open>Failures while the context is built\<close>

text \<open>
  C1. Building the context does not throw: in \<^verbatim>\<open>load_context\<close> every operation that
  can raise is inside a \<^verbatim>\<open>try\<close> whose handler goes on with the next file, so the
  function has a result for every directory and every state of its files. For a
  discovered file whose read or parse fails, the failure is printed with the path, and
  the context is the one the directory gives without that file: the file adds nothing,
  every other file adds what it adds anyway. When every discovered file fails, the
  context is the empty string and no block is counted.
\<close>

theorem failing_file_is_logged_and_left_out:
  "(p \<in> set (discover cwd names) \<and> fs p = Inl e \<longrightarrow>
      SkippingFile p e \<in> set (fst (load_context cwd names fs))
      \<and> snd (load_context cwd names fs)
          = snd (load_context cwd (filter (\<lambda>n. path_join cwd n \<noteq> p) names) fs))
   \<and> ((\<forall>q \<in> set (discover cwd names). \<exists>e'. fs q = Inl e') \<longrightarrow>
      snd (load_context cwd names fs) = []
      \<and> LoadedBlocks 0 \<in> set (fst (load_context cwd names fs)))"
proof (intro conjI impI)
  assume a: "p \<in> set (discover cwd names) \<and> fs p = Inl e"
  then have ns: "\<not> skipped p"
    by (simp add: discover_def)
  have "SkippingFile p e \<in> set (fst (visit fs p ([], [])))"
    using a ns by (simp add: visit_failure)
  then have "SkippingFile p e \<in> set (concat (map (\<lambda>p. fst (visit fs p ([], []))) (discover cwd names)))"
    using a by auto
  then show "SkippingFile p e \<in> set (fst (load_context cwd names fs))"
    by (simp add: load_context_log)
  have "filter (recognized fs) (filter (\<lambda>q. q \<noteq> p) (discover cwd names))
      = filter (recognized fs) (discover cwd names)"
    using a not_recognized_failure [of fs p e] by (auto intro: filter_cong)
  then show "snd (load_context cwd names fs)
      = snd (load_context cwd (filter (\<lambda>n. path_join cwd n \<noteq> p) names) fs)"
    by (simp add: load_context_blocks discover_remove)
next
  assume all: "\<forall>q \<in> set (discover cwd names). \<exists>e'. fs q = Inl e'"
  then have none: "filter (recognized fs) (discover cwd names) = []"
    by (auto simp: filter_empty_conv dest: not_recognized_failure)
  then show "snd (load_context cwd names fs) = []"
    by (simp add: load_context_blocks)
  show "LoadedBlocks 0 \<in> set (fst (load_context cwd names fs))"
    by (simp add: load_context_log none)
qed

text \<open>
  The theorem on two directories: one where a malformed file stands beside a valid
  interview, one where both files fail.
\<close>

theorem failing_file_is_logged_and_left_out_instance:
  "SkippingFile ''/srv/app/bad.json'' (LoadError ''Expecting value'')
     \<in> set (fst (load_context ''/srv/app'' [''talk.json'', ''bad.json'']
          (files_of
             [(''/srv/app/bad.json'', Inl (LoadError ''Expecting value'')),
              (''/srv/app/talk.json'', Inr (JList []))])))
   \<and> snd (load_context ''/srv/app'' [''talk.json'', ''bad.json'']
          (files_of
             [(''/srv/app/bad.json'', Inl (LoadError ''Expecting value'')),
              (''/srv/app/talk.json'', Inr (JList []))]))
     = ''=== Interview File: talk.json ===''
   \<and> snd (load_context ''/srv/app'' [''gone.json'', ''bad.json'']
          (files_of [(''/srv/app/bad.json'', Inl (LoadError ''Expecting value''))]))
     = []"
proof -
  let ?fs = "files_of
             [(''/srv/app/bad.json'', Inl (LoadError ''Expecting value'')),
              (''/srv/app/talk.json'', Inr (JList []))]"
  let ?gs = "files_of [(''/srv/app/bad.json'', Inl (LoadError ''Expecting value''))]"
  have h1: "''/srv/app/bad.json'' \<in> set (discover ''/srv/app'' [''talk.json'', ''bad.json''])
      \<and> ?fs ''/srv/app/bad.json'' = Inl (LoadError ''Expecting value'')"
    by code_simp
  have r: "filter (\<lambda>n. path_join ''/srv/app'' n \<noteq> ''/srv/app/bad.json'') [''talk.json'', ''bad.json'']
      = [''talk.json'']"
    by code_simp
  have v: "snd (load_context ''/srv/app'' [''talk.json''] ?fs) = ''=== Interview File: talk.json ===''"
    by code_simp
  have d: "discover ''/srv/app'' [''gone.json'', ''bad.json''] = [''/srv/app/bad.json'', ''/srv/app/gone.json'']"
    by code_simp
  have h2: "\<forall>q \<in> set (discover ''/srv/app'' [''gone.json'', ''bad.json'']). \<exists>e'. ?gs q = Inl e'"
    by (simp add: d files_of_def)
  note t1 = failing_file_is_logged_and_left_out
      [of "''/srv/app/bad.json''" "''/srv/app''" "[''talk.json'', ''bad.json'']" ?fs
          "LoadError ''Expecting value''"]
  note t2 = failing_file_is_logged_and_left_out
      [of "''/srv/app/bad.json''" "''/srv/app''" "[''gone.json'', ''bad.json'']" ?gs
          "LoadError ''Expecting value''"]
  from t1 h1 have
    "SkippingFile ''/srv/app/bad.json'' (LoadError ''Expecting value'')
       \<in> set (fst (load_context ''/srv/app'' [''talk.json'', ''bad.json''] ?fs))"
    and "snd (load_context ''/srv/app'' [''talk.json'', ''bad.json''] ?fs)
       = snd (load_context ''/srv/app''
           (filter (\<lambda>n. path_join ''/srv/app'' n \<noteq> ''/srv/app/bad.json'') [''talk.json'', ''bad.json''])
           ?fs)"
    by blast+
  moreover from t2 h2 have "snd (load_context ''/srv/app'' [''gone.json'', ''bad.json''] ?gs) = []"
    by blast
  ultimately show ?thesis
    by (simp only: r v simp_thms)
qed

subsection \<open>The context is the join of the rendered blocks\<close>

text \<open>
  C2, amended. For every directory, the context returned by \<^verbatim>\<open>load_context\<close> is the
  rendered blocks of the recognised files, in discovery order, joined by one blank line
  (two newlines). Every recognised file has its block in the join, an empty block
  included: a recognised file whose rendering is the empty string still brings its
  separator.
\<close>

theorem context_joins_every_block:
  "snd (load_context cwd names fs) =
     str_join ''\<newline>\<newline>''
       (map (rendered_block fs) (filter (recognized fs) (discover cwd names)))"
  by (rule load_context_blocks)

text \<open>
  The theorem on a directory of three files: an interview, a note that is of no
  recognised shape, and a survey whose summary is a number, which renders as the empty
  string.
\<close>

theorem context_joins_every_block_instance:
  "snd (load_context ''/srv/app'' [''c.json'', ''b.json'', ''a.json'']
     (files_of
        [(''/srv/app/a.json'', Inr (JList [])),
         (''/srv/app/b.json'', Inr (JDict [(''note'', JInt 1)])),
         (''/srv/app/c.json'', Inr (JDict [(''survey_summary'', JInt 5)]))]))
   = str_join ''\<newline>\<newline>'' [''=== Interview File: a.json ==='', []]"
proof -
  let ?fs = "files_of
        [(''/srv/app/a.json'', Inr (JList [])),
         (''/srv/app/b.json'', Inr (JDict [(''note'', JInt 1)])),
         (''/srv/app/c.json'', Inr (JDict [(''survey_summary'', JInt 5)]))]"
  have "map (rendered_block ?fs)
          (filter (recognized ?fs) (discover ''/srv/app'' [''c.json'', ''b.json'', ''a.json'']))
        = [''=== Interview File: a.json ==='', []]"
    by code_simp
  then show ?thesis
    using context_joins_every_block [of "''/srv/app''" "[''c.json'', ''b.json'', ''a.json'']" ?fs]
    by simp
qed

text \<open>
  The claim as worded, with the empty blocks left out of the join, fails on a
  directory of two files: the survey's empty block leaves a separator at the end of the
  context.
\<close>

theorem context_drops_empty_blocks_counterexample:
  "snd (load_context ''/srv/app'' [''a.json'', ''b.json'']
     (files_of
        [(''/srv/app/a.json'', Inr (JList [])),
         (''/srv/app/b.json'', Inr (JDict [(''survey_summary'', JInt 5)]))]))
   = ''=== Interview File: a.json ===\<newline>\<newline>''
   \<and> context_spec ''/srv/app'' [''a.json'', ''b.json'']
     (files_of
        [(''/srv/app/a.json'', Inr (JList [])),
         (''/srv/app/b.json'', Inr (JDict [(''survey_summary'', JInt 5)]))])
   = ''=== Interview File: a.json ===''
   \<and> snd (load_context ''/srv/app'' [''a.json'', ''b.json'']
     (files_of
        [(''/srv/app/a.json'', Inr (JList [])),
         (''/srv/app/b.json'', Inr (JDict [(''survey_summary'', JInt 5)]))]))
   \<noteq> context_spec ''/srv/app'' [''a.json'', ''b.json'']
     (files_of
        [(''/srv/app/a.json'', Inr (JList [])),
         (''/srv/app/b.json'', Inr (JDict [(''survey_summary'', JInt 5)]))])"
  by code_simp

subsection \<open>Discovery\<close>

text \<open>
  C3, amended. In a directory whose path has none of the glob characters \<^verbatim>\<open>*\<close>,
  \<^verbatim>\<open>?\<close>, \<^verbatim>\<open>[\<close>, discovery lists, sorted by code point, the paths of the directory's own
  entries whose name ends in \<^verbatim>\<open>.json\<close> and does not begin with a dot (what the glob
  \<^verbatim>\<open>*.json\<close> matches, without descending), and leaves out every path that has
  \<^verbatim>\<open>package\<close> or \<^verbatim>\<open>lock\<close> anywhere in its full text, the directory part included; so a
  name that has one of the two in it is always left out. The loop of \<^verbatim>\<open>load_context\<close>
  works on the discovered paths only, and in particular \<^verbatim>\<open>package-lock.json\<close> never
  reaches the context: whatever the file holds, the result is the one of the directory
  without it.
\<close>

theorem discovery_sorted_json_paths:
  assumes "\<not> has_magic cwd"
  shows "sorted (discover cwd names)
   \<and> discover cwd names =
       sort (map (path_join cwd)
         (filter (\<lambda>n. suffix ''.json'' n \<and> \<not> prefix ''.'' n
            \<and> \<not> str_contains ''package'' (path_join cwd n)
            \<and> \<not> str_contains ''lock'' (path_join cwd n)) names))
   \<and> (\<forall>n. str_contains ''package'' n \<or> str_contains ''lock'' n \<longrightarrow>
          path_join cwd n \<notin> set (discover cwd names))
   \<and> load_context cwd names fs =
       (let st = load_loop fs (discover cwd names) ([Scanning cwd], [])
        in (fst st @ [LoadedBlocks (length (snd st))], str_join ''\<newline>\<newline>'' (snd st)))
   \<and> load_context cwd names (fs(path_join cwd ''package-lock.json'' := r))
       = load_context cwd (filter (\<lambda>n. n \<noteq> ''package-lock.json'') names) fs"
proof (intro conjI allI impI)
  show "sorted (discover cwd names)"
    by (rule sorted_discover)
  show "discover cwd names =
       sort (map (path_join cwd)
         (filter (\<lambda>n. suffix ''.json'' n \<and> \<not> prefix ''.'' n
            \<and> \<not> str_contains ''package'' (path_join cwd n)
            \<and> \<not> str_contains ''lock'' (path_join cwd n)) names))"
    by (simp add: discover_as_sort skipped_def)
  show "path_join cwd n \<notin> set (discover cwd names)"
    if "str_contains ''package'' n \<or> str_contains ''lock'' n" for n
    using skipped_name [OF that, of cwd] by (simp add: discover_def)
  show "load_context cwd names fs =
       (let st = load_loop fs (discover cwd names) ([Scanning cwd], [])
        in (fst st @ [LoadedBlocks (length (snd st))], str_join ''\<newline>\<newline>'' (snd st)))"
    by (rule load_context_discover)
  have "str_contains ''package'' ''package-lock.json''"
    by code_simp
  then have sk: "skipped (path_join cwd ''package-lock.json'')"
    by (intro skipped_name) simp
  have "load_context cwd names (fs(path_join cwd ''package-lock.json'' := r))
      = load_context cwd names fs"
    using sk by (rule load_context_skipped_content)
  also have "\<dots> = load_context cwd (filter (\<lambda>n. n \<noteq> ''package-lock.json'') names) fs"
    by (simp add: load_context_discover discover_drop_skipped_name [OF sk])
  finally show "load_context cwd names (fs(path_join cwd ''package-lock.json'' := r))
      = load_context cwd (filter (\<lambda>n. n \<noteq> ''package-lock.json'') names) fs" .
qed

text \<open>
  The theorem on a directory that holds two data files, a lock file, a hidden file, a
  text file and a data file with \<^verbatim>\<open>lock\<close> in its name.
\<close>

theorem discovery_sorted_json_paths_instance:
  "\<not> has_magic ''/srv/app''
   \<and> sorted (discover ''/srv/app''
     [''survey.json'', ''package-lock.json'', ''.hidden.json'', ''notes.txt'',
      ''interview1.json'', ''blocklist.json''])
   \<and> ''/srv/app/package-lock.json'' \<notin> set (discover ''/srv/app''
     [''survey.json'', ''package-lock.json'', ''.hidden.json'', ''notes.txt'',
      ''interview1.json'', ''blocklist.json''])
   \<and> discover ''/srv/app''
     [''survey.json'', ''package-lock.json'', ''.hidden.json'', ''notes.txt'',
      ''interview1.json'', ''blocklist.json'']
     = [''/srv/app/interview1.json'', ''/srv/app/survey.json'']"
proof -
  let ?names = "[''survey.json'', ''package-lock.json'', ''.hidden.json'', ''notes.txt'',
      ''interview1.json'', ''blocklist.json'']"
  have g: "\<not> has_magic ''/srv/app''"
    by code_simp
  note t = discovery_sorted_json_paths [of "''/srv/app''" ?names "files_of []" "Inr JNull", OF g]
  have c: "str_contains ''package'' ''package-lock.json'' \<or> str_contains ''lock'' ''package-lock.json''"
    by code_simp
  have j: "path_join ''/srv/app'' ''package-lock.json'' = ''/srv/app/package-lock.json''"
    by code_simp
  from t have "sorted (discover ''/srv/app'' ?names)"
    by (rule conjunct1)
  moreover from t [THEN conjunct2, THEN conjunct2, THEN conjunct1] c
  have "path_join ''/srv/app'' ''package-lock.json'' \<notin> set (discover ''/srv/app'' ?names)"
    by blast
  moreover have "discover ''/srv/app'' ?names = [''/srv/app/interview1.json'', ''/srv/app/survey.json'']"
    by code_simp
  ultimately show ?thesis
    using g by (simp only: j simp_thms)
qed

text \<open>
  The claim as worded, with the exclusion decided by the file's name, fails in a
  directory whose own path has \<^verbatim>\<open>lock\<close> in it (and no glob character): the one data
  file there, a valid interview named \<^verbatim>\<open>a.json\<close>, is left out and the context is empty.
\<close>

theorem discovery_by_name_counterexample:
  "\<not> has_magic ''/srv/lockbox''
   \<and> discover ''/srv/lockbox'' [''a.json''] = []
   \<and> discover_spec ''/srv/lockbox'' [''a.json''] = [''/srv/lockbox/a.json'']
   \<and> discover ''/srv/lockbox'' [''a.json''] \<noteq> discover_spec ''/srv/lockbox'' [''a.json'']
   \<and> snd (load_context ''/srv/lockbox'' [''a.json'']
        (files_of [(''/srv/lockbox/a.json'', Inr (JList []))])) = []"
  by code_simp

subsection \<open>Classification\<close>

text \<open>
  C4. For a discovered file that parses, the turn of the loop goes by the shape of the
  root, in this order. A sequence is rendered as an interview: the interview text is
  appended and nothing is printed. Otherwise a mapping with the key \<^verbatim>\<open>survey_summary\<close>
  or the key \<^verbatim>\<open>free_text_insights\<close> is rendered as a survey: what \<^verbatim>\<open>load_survey_json\<close>
  returns is appended. Any other root (a mapping with neither key, a string, a number,
  a boolean, null) leaves the state as it is, nothing appended and nothing printed, and
  the whole result of \<^verbatim>\<open>load_context\<close> is the one of the directory without the file.
\<close>

theorem classification_by_root_shape:
  assumes "p \<in> set (discover cwd names)" and "fs p = Inr data"
  shows "(\<forall>xs. data = JList xs \<longrightarrow>
            visit fs p st = (fst st, snd st @ [str_join ''\<newline>'' (interview_lines (basename p) xs)]))
    \<and> (\<forall>kvs. data = JDict kvs
            \<and> (map_of kvs ''survey_summary'' \<noteq> None \<or> map_of kvs ''free_text_insights'' \<noteq> None) \<longrightarrow>
            visit fs p st = (fst st @ fst (load_survey_json fs p), snd st @ [snd (load_survey_json fs p)]))
    \<and> ((\<forall>xs. data \<noteq> JList xs)
          \<and> (\<forall>kvs. data = JDict kvs \<longrightarrow>
                map_of kvs ''survey_summary'' = None \<and> map_of kvs ''free_text_insights'' = None) \<longrightarrow>
            visit fs p st = st
            \<and> load_context cwd names fs
                = load_context cwd (filter (\<lambda>n. path_join cwd n \<noteq> p) names) fs)"
proof (intro conjI allI impI)
  have ns: "\<not> skipped p"
    using assms(1) by (simp add: discover_def)
  show "visit fs p st = (fst st, snd st @ [str_join ''\<newline>'' (interview_lines (basename p) xs)])"
    if "data = JList xs" for xs
    using that ns assms(2) by (simp add: visit_def load_and_parse_json_list)
  show "visit fs p st = (fst st @ fst (load_survey_json fs p), snd st @ [snd (load_survey_json fs p)])"
    if "data = JDict kvs
        \<and> (map_of kvs ''survey_summary'' \<noteq> None \<or> map_of kvs ''free_text_insights'' \<noteq> None)"
    for kvs
    using that ns assms(2) by (simp add: visit_def map_of_eq_None_iff Let_def)
  assume other: "(\<forall>xs. data \<noteq> JList xs)
      \<and> (\<forall>kvs. data = JDict kvs \<longrightarrow>
            map_of kvs ''survey_summary'' = None \<and> map_of kvs ''free_text_insights'' = None)"
  have same: "visit fs p s = s" for s
    using other ns assms(2) by (cases data) (simp_all add: visit_def map_of_eq_None_iff)
  show "visit fs p st = st"
    by (rule same)
  show "load_context cwd names fs = load_context cwd (filter (\<lambda>n. path_join cwd n \<noteq> p) names) fs"
    using load_context_remove [of fs p cwd names] same by simp
qed

text \<open>
  The theorem on a directory that holds an interview and a file whose root is a
  string: the string file is visited and changes nothing.
\<close>

theorem classification_by_root_shape_instance:
  "''/srv/app/note.json'' \<in> set (discover ''/srv/app'' [''note.json'', ''a.json''])
   \<and> files_of [(''/srv/app/a.json'', Inr (JList [])), (''/srv/app/note.json'', Inr (JStr ''hello''))]
        ''/srv/app/note.json'' = Inr (JStr ''hello'')
   \<and> load_context ''/srv/app'' [''note.json'', ''a.json'']
        (files_of [(''/srv/app/a.json'', Inr (JList [])), (''/srv/app/note.json'', Inr (JStr ''hello''))])
     = load_context ''/srv/app'' [''a.json'']
        (files_of [(''/srv/app/a.json'', Inr (JList [])), (''/srv/app/note.json'', Inr (JStr ''hello''))])"
proof -
  let ?fs = "files_of [(''/srv/app/a.json'', Inr (JList [])), (''/srv/app/note.json'', Inr (JStr ''hello''))]"
  let ?names = "[''note.json'', ''a.json'']"
  have h1: "''/srv/app/note.json'' \<in> set (discover ''/srv/app'' ?names)"
    by code_simp
  have h2: "?fs ''/srv/app/note.json'' = Inr (JStr ''hello'')"
    by code_simp
  have r: "filter (\<lambda>n. path_join ''/srv/app'' n \<noteq> ''/srv/app/note.json'') ?names = [''a.json'']"
    by code_simp
  note t = classification_by_root_shape
      [of "''/srv/app/note.json''" "''/srv/app''" ?names ?fs "JStr ''hello''" "([], [])", OF h1 h2]
  from t have "load_context ''/srv/app'' ?names ?fs
      = load_context ''/srv/app''
          (filter (\<lambda>n. path_join ''/srv/app'' n \<noteq> ''/srv/app/note.json'') ?names) ?fs"
    by simp
  then show ?thesis
    using h1 h2 by (simp only: r simp_thms)
qed

subsection \<open>Interview rendering\<close>

text \<open>
  C5. For a file whose root is a sequence, \<^verbatim>\<open>load_and_parse_json\<close> prints nothing and
  returns the lines of the interview joined by newlines: the header
  \<^verbatim>\<open>=== Interview File: <basename> ===\<close>, then for each element that is a mapping, in
  the order of the sequence, a blank line, \<^verbatim>\<open><speaker>:\<close>, \<^verbatim>\<open>Q: <question>\<close> and
  \<^verbatim>\<open>A: <answer>\<close>, with \<^verbatim>\<open>Unknown\<close> for a missing speaker key and the empty string for a
  missing question or answer key; an element that is not a mapping adds no line.
\<close>

theorem interview_rendering:
  "fs p = Inr (JList xs) \<Longrightarrow>
   load_and_parse_json fs p = ([], str_join ''\<newline>'' (interview_lines (basename p) xs))"
  by (rule load_and_parse_json_list)

text \<open>
  The theorem on a transcript of three elements: a record without a speaker and without
  an answer, a number, and a full record.
\<close>

theorem interview_rendering_instance:
  "files_of
     [(''/srv/app/talk.json'',
       Inr (JList [JDict [(''question'', JStr ''Why?'')], JInt 3,
                   JDict [(''speaker'', JStr ''B''), (''question'', JStr ''How?''),
                          (''answer'', JStr ''Slowly.'')]]))]
     ''/srv/app/talk.json''
   = Inr (JList [JDict [(''question'', JStr ''Why?'')], JInt 3,
                 JDict [(''speaker'', JStr ''B''), (''question'', JStr ''How?''),
                        (''answer'', JStr ''Slowly.'')]])
   \<and> load_and_parse_json
     (files_of
        [(''/srv/app/talk.json'',
          Inr (JList [JDict [(''question'', JStr ''Why?'')], JInt 3,
                      JDict [(''speaker'', JStr ''B''), (''question'', JStr ''How?''),
                             (''answer'', JStr ''Slowly.'')]]))])
     ''/srv/app/talk.json''
   = ([], ''=== Interview File: talk.json ===\<newline>\<newline>Unknown:\<newline>Q: Why?\<newline>A: ''
          @ ''\<newline>\<newline>B:\<newline>Q: How?\<newline>A: Slowly.'')"
proof -
  let ?xs = "[JDict [(''question'', JStr ''Why?'')], JInt 3,
              JDict [(''speaker'', JStr ''B''), (''question'', JStr ''How?''),
                     (''answer'', JStr ''Slowly.'')]]"
  let ?fs = "files_of [(''/srv/app/talk.json'', Inr (JList ?xs))]"
  have h: "?fs ''/srv/app/talk.json'' = Inr (JList ?xs)"
    by (simp add: files_of_def)
  have "str_join ''\<newline>'' (interview_lines (basename ''/srv/app/talk.json'') ?xs)
      = ''=== Interview File: talk.json ===\<newline>\<newline>Unknown:\<newline>Q: Why?\<newline>A: ''
          @ ''\<newline>\<newline>B:\<newline>Q: How?\<newline>A: Slowly.''"
    by code_simp
  then show ?thesis
    using h interview_rendering [of ?fs "''/srv/app/talk.json''" ?xs, OF h] by simp
qed

subsection \<open>Survey rendering\<close>

text \<open>
  C6, amended. For a file whose root is a mapping in which \<^verbatim>\<open>survey_summary\<close> and
  \<^verbatim>\<open>free_text_insights\<close> are each absent or a mapping, and in which no section name
  has a character whose upper-case form lies above code point 255 (among the code
  points below 256 these are the micro sign and the y with diaeresis),
  \<^verbatim>\<open>load_survey_json\<close> prints nothing and returns, joined by newlines: the header
  \<^verbatim>\<open>=== Survey Analytics File: <basename> ===\<close>; then, if \<^verbatim>\<open>survey_summary\<close> is there, a
  blank line and \<^verbatim>\<open>--- SURVEY SUMMARY ---\<close>, and for each section in the order of its
  keys a blank line, \<^verbatim>\<open>[<SECTION-UPPERCASED>]\<close> and the serialisation of the section's
  value with indent 2; then, if \<^verbatim>\<open>free_text_insights\<close> is there, a blank line and
  \<^verbatim>\<open>--- FREE TEXT INSIGHTS ---\<close>, and for each question a blank line, \<^verbatim>\<open>Q: <question>\<close>
  and \<^verbatim>\<open>Summary: <value>\<close>. The summary part comes before the free-text part. When one
  of the two keys holds a value that is not a mapping, the rendering is the empty string
  and the error is printed.
\<close>

theorem survey_rendering:
  "fs p = Inr (JDict kvs) \<Longrightarrow> sections_in_range kvs \<Longrightarrow>
   load_survey_json fs p =
     (if section_ok kvs ''survey_summary'' \<and> section_ok kvs ''free_text_insights''
      then ([], str_join ''\<newline>'' (survey_lines (basename p) kvs))
      else ([ErrorReading p AttributeError], []))"
  by (simp add: load_survey_json_def survey_body_dict)

text \<open>
  The theorem on a survey that lists its free-text insights before its summary, and
  that has a section with a Latin-1 letter in its name (\<^verbatim>\<open>caf\<close> and e with acute): the
  summary is rendered first all the same, and the letter is upper-cased.
\<close>

theorem survey_rendering_instance:
  "files_of
     [(''/srv/app/survey.json'',
       Inr (JDict [(''free_text_insights'', JDict [(''Why visit?'', JStr ''Taste'')]),
                   (''survey_summary'',
                    JDict [(''age'', JDict [(''18-25'', JInt 10)]),
                           (''caf'' @ [CHR 0xE9], JInt 1)])]))]
     ''/srv/app/survey.json''
   = Inr (JDict [(''free_text_insights'', JDict [(''Why visit?'', JStr ''Taste'')]),
                 (''survey_summary'',
                  JDict [(''age'', JDict [(''18-25'', JInt 10)]),
                         (''caf'' @ [CHR 0xE9], JInt 1)])])
   \<and> sections_in_range
       [(''free_text_insights'', JDict [(''Why visit?'', JStr ''Taste'')]),
        (''survey_summary'',
         JDict [(''age'', JDict [(''18-25'', JInt 10)]), (''caf'' @ [CHR 0xE9], JInt 1)])]
   \<and> load_survey_json
     (files_of
        [(''/srv/app/survey.json'',
          Inr (JDict [(''free_text_insights'', JDict [(''Why visit?'', JStr ''Taste'')]),
                      (''survey_summary'',
                       JDict [(''age'', JDict [(''18-25'', JInt 10)]),
                              (''caf'' @ [CHR 0xE9], JInt 1)])]))])
     ''/srv/app/survey.json''
   = ([], ''=== Survey Analytics File: survey.json ===\<newline>\<newline>--- SURVEY SUMMARY ---\<newline>\<newline>[AGE]\<newline>''
          @ ''{\<newline>  '' @ [CHR 0x22] @ ''18-25'' @ [CHR 0x22] @ '': 10\<newline>}''
          @ ''\<newline>\<newline>[CAF'' @ [CHR 0xC9] @ '']\<newline>1''
          @ ''\<newline>\<newline>--- FREE TEXT INSIGHTS ---\<newline>\<newline>Q: Why visit?\<newline>Summary: Taste'')"
proof -
  let ?kvs = "[(''free_text_insights'', JDict [(''Why visit?'', JStr ''Taste'')]),
               (''survey_summary'',
                JDict [(''age'', JDict [(''18-25'', JInt 10)]), (''caf'' @ [CHR 0xE9], JInt 1)])]"
  let ?fs = "files_of [(''/srv/app/survey.json'', Inr (JDict ?kvs))]"
  have h: "?fs ''/srv/app/survey.json'' = Inr (JDict ?kvs)"
    by (simp add: files_of_def)
  have r: "sections_in_range ?kvs"
    by code_simp
  have ok: "section_ok ?kvs ''survey_summary'' \<and> section_ok ?kvs ''free_text_insights''"
    by code_simp
  have "str_join ''\<newline>'' (survey_lines (basename ''/srv/app/survey.json'') ?kvs)
      = ''=== Survey Analytics File: survey.json ===\<newline>\<newline>--- SURVEY SUMMARY ---\<newline>\<newline>[AGE]\<newline>''
          @ ''{\<newline>  '' @ [CHR 0x22] @ ''18-25'' @ [CHR 0x22] @ '': 10\<newline>}''
          @ ''\<newline>\<newline>[CAF'' @ [CHR 0xC9] @ '']\<newline>1''
          @ ''\<newline>\<newline>--- FREE TEXT INSIGHTS ---\<newline>\<newline>Q: Why visit?\<newline>Summary: Taste''"
    by code_simp
  then show ?thesis
    using h r ok survey_rendering [of ?fs "''/srv/app/survey.json''" ?kvs, OF h r] by simp
qed

text \<open>
  The claim as worded, for every survey-shaped file, fails on a file that is classified
  as a survey and whose \<^verbatim>\<open>survey_summary\<close> is a number: the rendering is empty and has
  no header.
\<close>

theorem survey_without_header_counterexample:
  "classify (JDict [(''survey_summary'', JInt 5)]) = Survey
   \<and> load_survey_json
     (files_of [(''/srv/app/survey.json'', Inr (JDict [(''survey_summary'', JInt 5)]))])
     ''/srv/app/survey.json''
   = ([ErrorReading ''/srv/app/survey.json'' AttributeError], [])
   \<and> \<not> prefix ''=== Survey Analytics File: survey.json ===''
     (snd (load_survey_json
        (files_of [(''/srv/app/survey.json'', Inr (JDict [(''survey_summary'', JInt 5)]))])
        ''/srv/app/survey.json''))"
  by code_simp

subsection \<open>The end-to-end example\<close>

text \<open>
  C7. In a directory that holds exactly \<^verbatim>\<open>interview1.json\<close> with one record (speaker
  \<^verbatim>\<open>A\<close>, question \<^verbatim>\<open>Why coffee?\<close>, answer \<^verbatim>\<open>Passion.\<close>) and \<^verbatim>\<open>survey.json\<close> with the
  summary section \<^verbatim>\<open>age\<close>, \<^verbatim>\<open>load_context\<close> returns, in the order of the file names, the
  interview block with the lines \<^verbatim>\<open>A:\<close>, \<^verbatim>\<open>Q: Why coffee?\<close>, \<^verbatim>\<open>A: Passion.\<close> and then the
  survey block with \<^verbatim>\<open>--- SURVEY SUMMARY ---\<close>, \<^verbatim>\<open>[AGE]\<close> and the section's value
  serialised with indent 2. The directory is listed with the survey first, so the order
  of the result comes from the sort.
\<close>

theorem end_to_end_example:
  "snd (load_context ''/srv/app'' [''survey.json'', ''interview1.json'']
     (files_of
        [(''/srv/app/interview1.json'',
          Inr (JList [JDict [(''speaker'', JStr ''A''), (''question'', JStr ''Why coffee?''),
                             (''answer'', JStr ''Passion.'')]])),
         (''/srv/app/survey.json'',
          Inr (JDict [(''survey_summary'', JDict [(''age'', JDict [(''18-25'', JInt 10)])])]))]))
   = ''=== Interview File: interview1.json ===\<newline>\<newline>A:\<newline>Q: Why coffee?\<newline>A: Passion.''
     @ ''\<newline>\<newline>''
     @ ''=== Survey Analytics File: survey.json ===\<newline>\<newline>--- SURVEY SUMMARY ---\<newline>\<newline>[AGE]\<newline>''
     @ ''{\<newline>  '' @ [CHR 0x22] @ ''18-25'' @ [CHR 0x22] @ '': 10\<newline>}''"
  by code_simp

subsection \<open>The chat route\<close>

text \<open>
  C8, amended. Every call of the chat handler returns a JSON body with either a
  \<^verbatim>\<open>response\<close> field and status 200, or an \<^verbatim>\<open>error\<close> string and status 400 or 500;
  no exception leaves the handler. The \<^verbatim>\<open>response\<close> field is the text of the service's
  response, a string, and it is null when that response has no text. A missing API
  client gives status 500 whatever the request is. With the client in place: a body
  that is a JSON object without a \<^verbatim>\<open>message\<close> field gives \<^verbatim>\<open>No message provided\<close> with
  status 400; a failure of the completion service gives its message with status 500;
  and a body that cannot be read as JSON, or that is JSON but not an object, gives
  status 500 as well.
\<close>

theorem chat_always_replies:
  "((\<exists>reply. body (chat client rq) = JDict [(''response'', JStr reply)]
        \<and> status (chat client rq) = 200)
    \<or> (body (chat client rq) = JDict [(''response'', JNull)]
        \<and> status (chat client rq) = 200)
    \<or> (\<exists>msg. body (chat client rq) = JDict [(''error'', JStr msg)]
        \<and> (status (chat client rq) = 400 \<or> status (chat client rq) = 500)))
   \<and> (client = None \<longrightarrow>
        (\<exists>msg. body (chat client rq) = JDict [(''error'', JStr msg)])
        \<and> status (chat client rq) = 500 \<and> sent (chat client rq) = [])
   \<and> (\<forall>svc kvs. client = Some svc \<and> rq = Inr (JDict kvs) \<and> map_of kvs ''message'' = None \<longrightarrow>
        chat client rq =
          \<lparr>body = JDict [(''error'', JStr ''No message provided'')], status = 400, sent = []\<rparr>)
   \<and> (\<forall>svc kvs q e. client = Some svc \<and> rq = Inr (JDict kvs) \<and> map_of kvs ''message'' = Some q
          \<and> truthy q \<and> svc q = Inl e \<longrightarrow>
        chat client rq = \<lparr>body = JDict [(''error'', JStr e)], status = 500, sent = [q]\<rparr>)
   \<and> (\<forall>svc kvs q reply. client = Some svc \<and> rq = Inr (JDict kvs) \<and> map_of kvs ''message'' = Some q
          \<and> truthy q \<and> svc q = Inr (Some reply) \<longrightarrow>
        chat client rq = \<lparr>body = JDict [(''response'', JStr reply)], status = 200, sent = [q]\<rparr>)
   \<and> (\<forall>svc kvs q. client = Some svc \<and> rq = Inr (JDict kvs) \<and> map_of kvs ''message'' = Some q
          \<and> truthy q \<and> svc q = Inr None \<longrightarrow>
        chat client rq = \<lparr>body = JDict [(''response'', JNull)], status = 200, sent = [q]\<rparr>)
   \<and> (\<forall>svc v. client = Some svc \<and> rq = Inr v \<and> \<not> is_mapping v \<longrightarrow>
        (\<exists>msg. body (chat client rq) = JDict [(''error'', JStr msg)])
        \<and> status (chat client rq) = 500 \<and> sent (chat client rq) = [])
   \<and> (\<forall>svc e. client = Some svc \<and> rq = Inl e \<longrightarrow>
        chat client rq = \<lparr>body = JDict [(''error'', JStr e)], status = 500, sent = []\<rparr>)"
proof (intro conjI allI impI)
  show "(\<exists>reply. body (chat client rq) = JDict [(''response'', JStr reply)]
        \<and> status (chat client rq) = 200)
    \<or> (body (chat client rq) = JDict [(''response'', JNull)]
        \<and> status (chat client rq) = 200)
    \<or> (\<exists>msg. body (chat client rq) = JDict [(''error'', JStr msg)]
        \<and> (status (chat client rq) = 400 \<or> status (chat client rq) = 500))"
    by (simp add: chat_def error_reply_def jsonify_text_def split: option.splits sum.splits)
next
  assume "client = None"
  then show "\<exists>msg. body (chat client rq) = JDict [(''error'', JStr msg)]"
    and "status (chat client rq) = 500" and "sent (chat client rq) = []"
    by (simp_all add: chat_def error_reply_def)
next
  fix svc kvs
  assume "client = Some svc \<and> rq = Inr (JDict kvs) \<and> map_of kvs ''message'' = None"
  then show "chat client rq =
      \<lparr>body = JDict [(''error'', JStr ''No message provided'')], status = 400, sent = []\<rparr>"
    by (simp add: chat_def error_reply_def get_message_def dict_get_def truthy_def)
next
  fix svc kvs q e
  assume "client = Some svc \<and> rq = Inr (JDict kvs) \<and> map_of kvs ''message'' = Some q
      \<and> truthy q \<and> svc q = Inl e"
  then show "chat client rq = \<lparr>body = JDict [(''error'', JStr e)], status = 500, sent = [q]\<rparr>"
    by (simp add: chat_def error_reply_def get_message_def dict_get_def)
next
  fix svc kvs q reply
  assume "client = Some svc \<and> rq = Inr (JDict kvs) \<and> map_of kvs ''message'' = Some q
      \<and> truthy q \<and> svc q = Inr (Some reply)"
  then show "chat client rq = \<lparr>body = JDict [(''response'', JStr reply)], status = 200, sent = [q]\<rparr>"
    by (simp add: chat_def get_message_def dict_get_def jsonify_text_def)
next
  fix svc kvs q
  assume "client = Some svc \<and> rq = Inr (JDict kvs) \<and> map_of kvs ''message'' = Some q
      \<and> truthy q \<and> svc q = Inr None"
  then show "chat client rq = \<lparr>body = JDict [(''response'', JNull)], status = 200, sent = [q]\<rparr>"
    by (simp add: chat_def get_message_def dict_get_def jsonify_text_def)
next
  fix svc v
  assume a: "client = Some svc \<and> rq = Inr v \<and> \<not> is_mapping v"
  then have "\<exists>msg. get_message v = Inl msg"
    by (cases v) (simp_all add: get_message_def is_mapping_def)
  then show "\<exists>msg. body (chat client rq) = JDict [(''error'', JStr msg)]"
    and "status (chat client rq) = 500" and "sent (chat client rq) = []"
    using a by (auto simp: chat_def error_reply_def)
next
  fix svc e
  assume "client = Some svc \<and> rq = Inl e"
  then show "chat client rq = \<lparr>body = JDict [(''error'', JStr e)], status = 500, sent = []\<rparr>"
    by (simp add: chat_def error_reply_def)
qed

text \<open>
  The theorem on six calls: no client; an empty object; a message that the service
  fails on; a message that the service answers; a message that the service answers
  with a response without text; a body that is a list.
\<close>

theorem chat_always_replies_instance:
  "status (chat None (Inr (JDict [(''message'', JStr ''Hi'')]))) = 500
   \<and> chat (Some (answering ''Hello'')) (Inr (JDict []))
     = \<lparr>body = JDict [(''error'', JStr ''No message provided'')], status = 400, sent = []\<rparr>
   \<and> chat (Some (failing ''quota exceeded'')) (Inr (JDict [(''message'', JStr ''Hi'')]))
     = \<lparr>body = JDict [(''error'', JStr ''quota exceeded'')], status = 500, sent = [JStr ''Hi'']\<rparr>
   \<and> chat (Some (answering ''Hello'')) (Inr (JDict [(''message'', JStr ''Hi'')]))
     = \<lparr>body = JDict [(''response'', JStr ''Hello'')], status = 200, sent = [JStr ''Hi'']\<rparr>
   \<and> chat (Some silent) (Inr (JDict [(''message'', JStr ''Hi'')]))
     = \<lparr>body = JDict [(''response'', JNull)], status = 200, sent = [JStr ''Hi'']\<rparr>
   \<and> status (chat (Some (answering ''Hello'')) (Inr (JList []))) = 500"
proof -
  let ?hi = "Inr (JDict [(''message'', JStr ''Hi'')]) :: string + json"
  note t1 = chat_always_replies [of None ?hi]
  note t2 = chat_always_replies [of "Some (answering ''Hello'')" "Inr (JDict [])"]
  note t3 = chat_always_replies [of "Some (failing ''quota exceeded'')" ?hi]
  note t4 = chat_always_replies [of "Some (answering ''Hello'')" ?hi]
  note t5 = chat_always_replies [of "Some silent" ?hi]
  note t6 = chat_always_replies [of "Some (answering ''Hello'')" "Inr (JList [])"]
  have m: "map_of [(''message'', JStr ''Hi'')] ''message'' = Some (JStr ''Hi'')"
    "truthy (JStr ''Hi'')" "map_of ([] :: (string \<times> json) list) ''message'' = None"
    "\<not> is_mapping (JList [])"
    by (simp_all add: truthy_def is_mapping_def)
  have s: "failing ''quota exceeded'' (JStr ''Hi'') = Inl ''quota exceeded''"
    "answering ''Hello'' (JStr ''Hi'') = Inr (Some ''Hello'')"
    "silent (JStr ''Hi'') = Inr None"
    by (simp_all add: failing_def answering_def silent_def)
  from t1 [THEN conjunct2, THEN conjunct1] have "status (chat None ?hi) = 500"
    by simp
  moreover from t2 [THEN conjunct2, THEN conjunct2, THEN conjunct1] m(3)
  have "chat (Some (answering ''Hello'')) (Inr (JDict []))
     = \<lparr>body = JDict [(''error'', JStr ''No message provided'')], status = 400, sent = []\<rparr>"
    by blast
  moreover from t3 [THEN conjunct2, THEN conjunct2, THEN conjunct2, THEN conjunct1] m(1,2) s(1)
  have "chat (Some (failing ''quota exceeded'')) ?hi
     = \<lparr>body = JDict [(''error'', JStr ''quota exceeded'')], status = 500, sent = [JStr ''Hi'']\<rparr>"
    by blast
  moreover from t4 [THEN conjunct2, THEN conjunct2, THEN conjunct2, THEN conjunct2, THEN conjunct1]
    m(1,2) s(2)
  have "chat (Some (answering ''Hello'')) ?hi
     = \<lparr>body = JDict [(''response'', JStr ''Hello'')], status = 200, sent = [JStr ''Hi'']\<rparr>"
    by blast
  moreover from t5 [THEN conjunct2, THEN conjunct2, THEN conjunct2, THEN conjunct2, THEN conjunct2,
      THEN conjunct1] m(1,2) s(3)
  have "chat (Some silent) ?hi
     = \<lparr>body = JDict [(''response'', JNull)], status = 200, sent = [JStr ''Hi'']\<rparr>"
    by blast
  moreover from t6 [THEN conjunct2, THEN conjunct2, THEN conjunct2, THEN conjunct2, THEN conjunct2,
      THEN conjunct2, THEN conjunct1] m(4)
  have "status (chat (Some (answering ''Hello'')) (Inr (JList []))) = 500"
    by blast
  ultimately show ?thesis
    by (simp only: simp_thms)
qed

text \<open>
  The claim as worded, that a body without a \<^verbatim>\<open>message\<close> field gives status 400, fails
  with a working client on a body that is a JSON list: the list has no \<^verbatim>\<open>get\<close>, and
  the handler's catch-all answers with status 500.
\<close>

theorem chat_list_body_counterexample:
  "chat (Some (answering ''Hello'')) (Inr (JList []))
     = \<lparr>body = JDict [(''error'', JStr ([CHR 0x27] @ ''list'' @ [CHR 0x27] @ '' object has no attribute ''
          @ [CHR 0x27] @ ''get'' @ [CHR 0x27]))],
        status = 500, sent = []\<rparr>
   \<and> status (chat (Some (answering ''Hello'')) (Inr (JList []))) \<noteq> 400"
  by code_simp

subsection \<open>Fields that are present and null\<close>

text \<open>
  C9. The defaults of the interview rendering stand in for absent keys only. In a file
  whose root is a sequence, the text of every record of the sequence is part of the
  rendering, and in a record whose \<^verbatim>\<open>speaker\<close> key holds null the speaker line is
  \<^verbatim>\<open>None:\<close>, not \<^verbatim>\<open>Unknown:\<close>; in the same way a \<^verbatim>\<open>question\<close> or an \<^verbatim>\<open>answer\<close> that
  holds null is shown as \<^verbatim>\<open>None\<close>, not as the empty string.
\<close>

theorem null_field_renders_as_None:
  assumes "fs p = Inr (JList xs)" and "JDict entry \<in> set xs"
  shows "str_contains (render_entry entry) (snd (load_and_parse_json fs p))
    \<and> (map_of entry ''speaker'' = Some JNull \<longrightarrow>
         render_entry entry =
           ''\<newline>None:\<newline>Q: '' @ field_text entry ''question'' []
             @ ''\<newline>A: '' @ field_text entry ''answer'' [])
    \<and> (map_of entry ''question'' = Some JNull \<longrightarrow>
         render_entry entry =
           ''\<newline>'' @ field_text entry ''speaker'' ''Unknown'' @ '':\<newline>Q: None\<newline>A: ''
             @ field_text entry ''answer'' [])
    \<and> (map_of entry ''answer'' = Some JNull \<longrightarrow>
         render_entry entry =
           ''\<newline>'' @ field_text entry ''speaker'' ''Unknown'' @ '':\<newline>Q: ''
             @ field_text entry ''question'' [] @ ''\<newline>A: None'')"
proof -
  have none: "field_text entry key dflt = ''None''" if "map_of entry key = Some JNull" for key dflt
    using that by (simp add: field_text_def py_str_def)
  show ?thesis
    using interview_has_entry [of fs p xs entry] assms by (simp add: render_entry_fields none)
qed

text \<open>The theorem on a file of one record whose three fields are null.\<close>

theorem null_field_renders_as_None_instance:
  "str_contains ''\<newline>None:\<newline>Q: None\<newline>A: None''
     (snd (load_and_parse_json
        (files_of
           [(''/srv/app/talk.json'',
             Inr (JList [JDict [(''speaker'', JNull), (''question'', JNull),
                                (''answer'', JNull)]]))])
        ''/srv/app/talk.json''))"
proof -
  let ?entry = "[(''speaker'', JNull), (''question'', JNull), (''answer'', JNull)]"
  let ?fs = "files_of [(''/srv/app/talk.json'', Inr (JList [JDict ?entry]))]"
  have h: "?fs ''/srv/app/talk.json'' = Inr (JList [JDict ?entry])"
    by (simp add: files_of_def)
  have m: "JDict ?entry \<in> set [JDict ?entry]"
    by simp
  have f: "field_text ?entry ''question'' [] = ''None''" "field_text ?entry ''answer'' [] = ''None''"
    by code_simp+
  note t = null_field_renders_as_None [of ?fs "''/srv/app/talk.json''" "[JDict ?entry]" ?entry, OF h m]
  from t have r: "render_entry ?entry = ''\<newline>None:\<newline>Q: None\<newline>A: None''"
    using f by simp
  from t have "str_contains (render_entry ?entry) (snd (load_and_parse_json ?fs ''/srv/app/talk.json''))"
    by (rule conjunct1)
  then show ?thesis
    by (simp only: r)
qed

subsection \<open>Falsy messages\<close>

text \<open>
  C10, amended. A request whose body is a JSON object with a \<^verbatim>\<open>message\<close> field that is
  falsy (the empty string, null, zero, false, an empty list or object) is answered
  exactly like one whose object has no \<^verbatim>\<open>message\<close> field, and no query is sent to the
  completion service; when the API client is in place, the answer is the body
  \<^verbatim>\<open>{"error": "No message provided"}\<close> with status 400.
\<close>

theorem falsy_message_is_rejected:
  assumes "rq = Inr (JDict kvs)" and "map_of kvs ''message'' = Some v" and "\<not> truthy v"
  shows "(\<forall>kvs'. map_of kvs' ''message'' = None \<longrightarrow>
            chat client rq = chat client (Inr (JDict kvs')))
    \<and> sent (chat client rq) = []
    \<and> (\<forall>svc. client = Some svc \<longrightarrow>
          chat client rq =
            \<lparr>body = JDict [(''error'', JStr ''No message provided'')], status = 400, sent = []\<rparr>)"
  using assms
  by (simp add: chat_def error_reply_def get_message_def dict_get_def truthy_def
      split: option.splits)

text \<open>The theorem on a message that is the empty string and on one that is null.\<close>

theorem falsy_message_is_rejected_instance:
  "chat (Some (answering ''Hello'')) (Inr (JDict [(''message'', JStr [])]))
     = \<lparr>body = JDict [(''error'', JStr ''No message provided'')], status = 400, sent = []\<rparr>
   \<and> chat (Some (answering ''Hello'')) (Inr (JDict [(''message'', JNull)]))
     = chat (Some (answering ''Hello'')) (Inr (JDict []))"
proof -
  have e: "map_of [(''message'', JStr [])] ''message'' = Some (JStr [])" "\<not> truthy (JStr [])"
    and n: "map_of [(''message'', JNull)] ''message'' = Some JNull" "\<not> truthy JNull"
    and m: "map_of ([] :: (string \<times> json) list) ''message'' = None"
    by (simp_all add: truthy_def)
  note t1 = falsy_message_is_rejected
      [of "Inr (JDict [(''message'', JStr [])])" "[(''message'', JStr [])]" "JStr []"
          "Some (answering ''Hello'')", OF refl e]
  note t2 = falsy_message_is_rejected
      [of "Inr (JDict [(''message'', JNull)])" "[(''message'', JNull)]" JNull
          "Some (answering ''Hello'')", OF refl n]
  from t1 have "chat (Some (answering ''Hello'')) (Inr (JDict [(''message'', JStr [])]))
     = \<lparr>body = JDict [(''error'', JStr ''No message provided'')], status = 400, sent = []\<rparr>"
    by blast
  moreover from t2 m have "chat (Some (answering ''Hello'')) (Inr (JDict [(''message'', JNull)]))
     = chat (Some (answering ''Hello'')) (Inr (JDict []))"
    by blast
  ultimately show ?thesis
    by (simp only: simp_thms)
qed

text \<open>
  The claim as worded, for every request, fails on a server whose API client is
  missing: the handler answers the configuration error with status 500 before it looks
  at the body.
\<close>

theorem falsy_message_without_client_counterexample:
  "chat None (Inr (JDict [(''message'', JStr [])]))
     = \<lparr>body = JDict [(''error'', JStr
          ''Backend Configuration Error: Google API Key is missing or invalid on the server.'')],
        status = 500, sent = []\<rparr>
   \<and> status (chat None (Inr (JDict [(''message'', JStr [])]))) \<noteq> 400"
  by code_simp

end
